theory Spec2Isabelle
  imports Main "HOL-Library.Sublist"
begin

section \<open>JavaScript strings\<close>

text \<open>
  A JavaScript string is a sequence of code units.  The model uses \<open>string\<close>, so a code
  unit ranges over U+0000 .. U+00FF; the string functions below are the ECMAScript ones
  restricted to that range.
\<close>

definition isWhiteSpace :: "char \<Rightarrow> bool" where
  \<comment> \<open>WhiteSpace and LineTerminator of ECMAScript (what \<open>trim\<close> strips and \<open>\s\<close> matches):
      TAB, LF, VT, FF, CR, SP and NBSP.\<close>
  "isWhiteSpace c \<longleftrightarrow> c \<in> {CHR 0x09, CHR 0x0A, CHR 0x0B, CHR 0x0C, CHR 0x0D, CHR 0x20, CHR 0xA0}"

definition trim :: "string \<Rightarrow> string" where
  "trim s = rev (dropWhile isWhiteSpace (rev (dropWhile isWhiteSpace s)))"

definition lowerChar :: "char \<Rightarrow> char" where
  \<comment> \<open>A..Z and the Latin-1 capitals (U+00C0..U+00DE without the multiplication sign).\<close>
  "lowerChar c =
     (let n = (of_char c :: nat)
      in if (65 \<le> n \<and> n \<le> 90) \<or> (192 \<le> n \<and> n \<le> 214) \<or> (216 \<le> n \<and> n \<le> 222)
         then char_of (n + 32) else c)"

definition toLowerCase :: "string \<Rightarrow> string" where
  "toLowerCase s = map lowerChar s"

fun startsWith :: "string \<Rightarrow> string \<Rightarrow> bool" where
  "startsWith s [] = True"
| "startsWith [] (p # ps) = False"
| "startsWith (c # cs) (p # ps) = (c = p \<and> startsWith cs ps)"

fun includesStr :: "string \<Rightarrow> string \<Rightarrow> bool" where
  "includesStr [] sub = startsWith [] sub"
| "includesStr (c # cs) sub = (startsWith (c # cs) sub \<or> includesStr cs sub)"

fun split :: "char \<Rightarrow> string \<Rightarrow> string list" where
  \<comment> \<open>\<open>s.split(sep)\<close> for a separator of one code unit; the result is never empty.\<close>
  "split sep [] = [[]]"
| "split sep (c # cs) =
     (if c = sep then [] # split sep cs
      else (case split sep cs of [] \<Rightarrow> [[c]] | x # xs \<Rightarrow> (c # x) # xs))"

definition truthy :: "string option \<Rightarrow> bool" where
  \<comment> \<open>Truthiness of a value of type \<open>string | null\<close>: neither \<open>null\<close> nor the empty string.\<close>
  "truthy v = (case v of None \<Rightarrow> False | Some s \<Rightarrow> s \<noteq> [])"

section \<open>Data model\<close>

record Contact =
  c_id :: string
  c_name :: string
  c_phone :: string
  c_tags :: "string list"
  c_notes :: "string option"
  c_optIn :: bool
  c_createdAt :: string

record MessageTemplate =
  t_id :: string
  t_name :: string
  t_body :: string
  t_createdAt :: string

datatype AudienceMode = All | Tag

section \<open>Audience resolution (BroadcastComposer)\<close>

definition optedInContacts :: "Contact list \<Rightarrow> Contact list" where
  "optedInContacts contacts = filter c_optIn contacts"

definition hasTag :: "string \<Rightarrow> Contact \<Rightarrow> bool" where
  \<comment> \<open>\<open>contact.tags.some((tag) => tag.toLowerCase() === audienceTag.toLowerCase())\<close>\<close>
  "hasTag audienceTag contact =
     list_ex (\<lambda>tag. toLowerCase tag = toLowerCase audienceTag) (c_tags contact)"

definition filteredContacts :: "Contact list \<Rightarrow> AudienceMode \<Rightarrow> string option \<Rightarrow> Contact list" where
  "filteredContacts contacts audienceMode audienceTag =
     (if audienceMode = Tag \<and> truthy audienceTag
      then filter (hasTag (the audienceTag)) (optedInContacts contacts)
      else optedInContacts contacts)"

section \<open>Regular-expression replacement of a placeholder\<close>

definition canonicalize :: "char \<Rightarrow> char" where
  \<comment> \<open>Canonicalize of a case-insensitive, non-unicode regular expression: the upper-case
      form of a..z and of the Latin-1 small letters that have one in the range.  The sharp s
      has no single upper-case code unit and stands for itself; the micro sign and the y with
      diaeresis have theirs beyond U+00FF, shared with no other code unit of the range, so
      they stand for themselves as well.\<close>
  "canonicalize c =
     (let n = (of_char c :: nat)
      in if (97 \<le> n \<and> n \<le> 122) \<or> (224 \<le> n \<and> n \<le> 246) \<or> (248 \<le> n \<and> n \<le> 254)
         then char_of (n - 32) else c)"

fun matchLiteral :: "string \<Rightarrow> string \<Rightarrow> string option" where
  \<comment> \<open>Match the pattern text at the start of the input, ignoring case; the rest of the
      input is returned.\<close>
  "matchLiteral [] s = Some s"
| "matchLiteral (p # ps) [] = None"
| "matchLiteral (p # ps) (c # cs) =
     (if canonicalize p = canonicalize c then matchLiteral ps cs else None)"

definition matchToken :: "string \<Rightarrow> string \<Rightarrow> string option" where
  \<comment> \<open>One attempt of \<open>/{{\s*name\s*}}/i\<close> at the start of the input.  No letter of a name
      and no brace is white space, so the greedy \<open>\s*\<close> never gives a character back.\<close>
  "matchToken name s =
     (case matchLiteral ''{{'' s of
        None \<Rightarrow> None
      | Some s1 \<Rightarrow>
          (case matchLiteral name (dropWhile isWhiteSpace s1) of
             None \<Rightarrow> None
           | Some s2 \<Rightarrow> matchLiteral ''}}'' (dropWhile isWhiteSpace s2)))"

fun getSubstitution :: "string \<Rightarrow> string \<Rightarrow> string \<Rightarrow> string \<Rightarrow> string" where
  \<comment> \<open>GetSubstitution for a pattern without capture groups: \<open>$$\<close> is a dollar sign,
      \<open>$&\<close> the matched text, \<open>$`\<close> the text preceding the match, \<open>$'\<close> the text following
      it; every other dollar sign stands for itself.\<close>
  "getSubstitution matched preceding following [] = []"
| "getSubstitution matched preceding following [c] = [c]"
| "getSubstitution matched preceding following (c # d # r) =
     (if c = CHR ''$'' \<and> d = CHR ''$'' then CHR ''$'' # getSubstitution matched preceding following r
      else if c = CHR ''$'' \<and> d = CHR ''&'' then matched @ getSubstitution matched preceding following r
      else if c = CHR ''$'' \<and> d = CHR 0x60 then preceding @ getSubstitution matched preceding following r
      else if c = CHR ''$'' \<and> d = CHR 0x27 then following @ getSubstitution matched preceding following r
      else c # getSubstitution matched preceding following (d # r))"

function replaceToken :: "string \<Rightarrow> string \<Rightarrow> string \<Rightarrow> string \<Rightarrow> string" where
  \<comment> \<open>\<open>str.replace(/{{\s*name\s*}}/gi, replacement)\<close>, scanning the input from the left;
      \<open>preceding\<close> is the part of \<open>str\<close> already scanned.\<close>
  "replaceToken name replacement preceding [] = []"
| "replaceToken name replacement preceding (c # cs) =
     (case matchToken name (c # cs) of
        None \<Rightarrow> c # replaceToken name replacement (preceding @ [c]) cs
      | Some rest \<Rightarrow>
          getSubstitution (take (Suc (length cs) - length rest) (c # cs)) preceding rest replacement
          @ replaceToken name replacement
              (preceding @ take (Suc (length cs) - length rest) (c # cs)) rest)"
  by pat_completeness auto
termination
proof (relation "measure (\<lambda>(name, replacement, preceding, s). length s)")
  show "wf (measure (\<lambda>(name, replacement, preceding, s). length s))"
    by simp
next
  fix name replacement preceding :: string and c :: char and cs :: string
  show "((name, replacement, preceding @ [c], cs), (name, replacement, preceding, c # cs))
        \<in> measure (\<lambda>(name, replacement, preceding, s). length s)"
    by simp
next
  fix name replacement preceding :: string and c :: char and cs rest :: string
  assume m: "matchToken name (c # cs) = Some rest"
  have lit: "\<And>p s r. matchLiteral p s = Some r \<Longrightarrow> length r + length p = length s"
  proof -
    fix p s r
    show "matchLiteral p s = Some r \<Longrightarrow> length r + length p = length s"
      by (induction p s rule: matchLiteral.induct) (auto split: if_splits)
  qed
  have dw: "\<And>s :: string. length (dropWhile isWhiteSpace s) \<le> length s"
    by (simp add: length_dropWhile_le)
  from m obtain s1 s2 where
    a: "matchLiteral ''{{'' (c # cs) = Some s1" and
    b: "matchLiteral name (dropWhile isWhiteSpace s1) = Some s2" and
    d: "matchLiteral ''}}'' (dropWhile isWhiteSpace s2) = Some rest"
    unfolding matchToken_def by (auto split: option.splits)
  from lit [OF a] have "length s1 + 2 = Suc (length cs)" by simp
  moreover from lit [OF b] dw [of s1] have "length s2 \<le> length s1" by simp
  moreover from lit [OF d] dw [of s2] have "length rest \<le> length s2" by simp
  ultimately have "length rest < Suc (length cs)" by simp
  then show "((name, replacement, preceding @ take (Suc (length cs) - length rest) (c # cs), rest),
              (name, replacement, preceding, c # cs))
        \<in> measure (\<lambda>(name, replacement, preceding, s). length s)"
    by simp
qed

definition replaceAll :: "string \<Rightarrow> string \<Rightarrow> string \<Rightarrow> string" where
  "replaceAll name replacement str = replaceToken name replacement [] str"

section \<open>Personalisation (BroadcastComposer)\<close>

definition firstNameOf :: "Contact \<Rightarrow> string" where
  \<comment> \<open>\<open>const [firstName, ...rest] = contact.name.trim().split(" ")\<close>, then
      \<open>firstName ?? contact.name\<close>.\<close>
  "firstNameOf contact =
     (case split CHR '' '' (trim (c_name contact)) of
        [] \<Rightarrow> c_name contact
      | firstName # rest \<Rightarrow> firstName)"

definition companyOf :: "Contact \<Rightarrow> string" where
  "companyOf contact =
     (case find (\<lambda>tag. includesStr (toLowerCase tag) ''company'') (c_tags contact) of
        Some tag \<Rightarrow> tag
      | None \<Rightarrow> (case c_tags contact of tag # _ \<Rightarrow> tag | [] \<Rightarrow> ''your team''))"

definition notesOf :: "Contact \<Rightarrow> string" where
  "notesOf contact = (case c_notes contact of Some n \<Rightarrow> n | None \<Rightarrow> [])"

definition firstTagOf :: "Contact \<Rightarrow> string" where
  "firstTagOf contact = (case c_tags contact of tag # _ \<Rightarrow> tag | [] \<Rightarrow> [])"

definition personaliseMessage :: "string \<Rightarrow> Contact \<Rightarrow> string" where
  "personaliseMessage template contact =
     replaceAll ''phone'' (c_phone contact)
       (replaceAll ''tag'' (firstTagOf contact)
          (replaceAll ''notes'' (notesOf contact)
             (replaceAll ''company'' (companyOf contact)
                (replaceAll ''fullName'' (c_name contact)
                   (replaceAll ''firstName'' (firstNameOf contact) template)))))"

section \<open>Broadcasts and delivery tasks\<close>

datatype BroadcastStatus = Scheduled | InProgress | Completed | Failed

datatype DeliveryStatus = Pending | Sending | Delivered | DeliveryFailed

datatype Target = TargetTag "string option" | TargetContactIds "string list"

record Broadcast =
  b_id :: string
  b_label :: string
  b_templateId :: string
  b_target :: Target
  b_scheduledFor :: "string option"
  b_createdAt :: string
  b_status :: BroadcastStatus
  b_totalRecipients :: nat
  b_delivered :: nat
  b_failed :: nat

record DeliveryLogEntry =
  d_id :: string
  d_broadcastId :: string
  d_contactId :: string
  d_contactName :: string
  d_phone :: string
  d_scheduledFor :: "string option"
  d_status :: DeliveryStatus
  d_preview :: string
  d_startedAt :: "string option"
  d_completedAt :: "string option"
  d_error :: "string option"

record Timer =
  tm_handle :: nat
  tm_entryId :: string
  tm_shouldFail :: bool

text \<open>
  The state of the page: the four persistent collections, the form fields held by the page
  and by the composer, and what the dispatch effect keeps between its runs: the busy flag
  \<open>processingRef\<close>, the timeouts that are set and not yet fired or cleared, and the handle
  that the clean-up function returned by the last run of the effect would clear.
\<close>

record App =
  st_contacts :: "Contact list"
  st_templates :: "MessageTemplate list"
  st_broadcasts :: "Broadcast list"
  st_deliveries :: "DeliveryLogEntry list"
  st_selectedTemplateId :: "string option"
  st_message :: string
  st_broadcastLabel :: string
  st_scheduledFor :: "string option"
  st_audienceTag :: "string option"
  st_audienceMode :: AudienceMode
  st_acknowledgedCompliance :: bool
  st_processingRef :: bool
  st_timers :: "Timer list"
  st_cleanup :: "nat option"
  st_nextHandle :: nat

section \<open>Launching a broadcast (BroadcastComposer.handleSubmit, Home.handleLaunchBroadcast)\<close>

definition audience :: "App \<Rightarrow> Contact list" where
  "audience s = filteredContacts (st_contacts s) (st_audienceMode s) (st_audienceTag s)"

definition selectedTemplate :: "App \<Rightarrow> MessageTemplate option" where
  "selectedTemplate s =
     find (\<lambda>template. Some (t_id template) = st_selectedTemplateId s) (st_templates s)"

text \<open>
  \<open>nanoid\<close> is the supply of identifiers of one submission: \<open>nanoid 0\<close> is the first
  identifier drawn (the broadcast's), \<open>nanoid (Suc i)\<close> the one of the task at index \<open>i\<close>.
\<close>

definition newBroadcast :: "(nat \<Rightarrow> string) \<Rightarrow> string \<Rightarrow> App \<Rightarrow> Broadcast" where
  "newBroadcast nanoid isoNow s =
     \<lparr>b_id = nanoid 0,
      b_label = trim (st_broadcastLabel s),
      b_templateId = (case selectedTemplate s of Some template \<Rightarrow> t_id template | None \<Rightarrow> ''custom''),
      b_target = (if st_audienceMode s = Tag then TargetTag (st_audienceTag s)
                  else TargetContactIds (map c_id (audience s))),
      b_scheduledFor = st_scheduledFor s,
      b_createdAt = isoNow,
      b_status = (if truthy (st_scheduledFor s) then Scheduled else InProgress),
      b_totalRecipients = length (audience s),
      b_delivered = 0,
      b_failed = 0\<rparr>"

definition newDelivery :: "(nat \<Rightarrow> string) \<Rightarrow> App \<Rightarrow> Broadcast \<Rightarrow> nat \<times> Contact \<Rightarrow> DeliveryLogEntry" where
  "newDelivery nanoid s broadcast ic =
     \<lparr>d_id = nanoid (Suc (fst ic)),
      d_broadcastId = b_id broadcast,
      d_contactId = c_id (snd ic),
      d_contactName = c_name (snd ic),
      d_phone = c_phone (snd ic),
      d_scheduledFor = st_scheduledFor s,
      d_status = Pending,
      d_preview = personaliseMessage (st_message s) (snd ic),
      d_startedAt = None,
      d_completedAt = None,
      d_error = None\<rparr>"

definition newDeliveries :: "(nat \<Rightarrow> string) \<Rightarrow> App \<Rightarrow> Broadcast \<Rightarrow> DeliveryLogEntry list" where
  "newDeliveries nanoid s broadcast =
     map (newDelivery nanoid s broadcast) (enumerate 0 (audience s))"

definition handleLaunchBroadcast :: "Broadcast \<Rightarrow> DeliveryLogEntry list \<Rightarrow> App \<Rightarrow> App" where
  "handleLaunchBroadcast broadcast deliveryEntries s =
     s\<lparr>st_broadcasts := broadcast # st_broadcasts s,
       st_deliveries := st_deliveries s @ deliveryEntries,
       st_message := [],
       st_broadcastLabel := ''Follow-up broadcast'',
       st_scheduledFor := None\<rparr>"

definition handleSubmit :: "(nat \<Rightarrow> string) \<Rightarrow> string \<Rightarrow> App \<Rightarrow> App" where
  "handleSubmit nanoid isoNow s =
     (if trim (st_broadcastLabel s) = [] then s
      else if trim (st_message s) = [] then s
      else if \<not> st_acknowledgedCompliance s then s
      else if audience s = [] then s
      else
        (let broadcast = newBroadcast nanoid isoNow s;
             deliveries = newDeliveries nanoid s broadcast
         in (handleLaunchBroadcast broadcast deliveries s)\<lparr>st_acknowledgedCompliance := False\<rparr>))"

definition isProcessing :: "App \<Rightarrow> bool" where
  "isProcessing s = list_ex (\<lambda>entry. d_status entry = Sending) (st_deliveries s)"

definition submitDisabled :: "App \<Rightarrow> bool" where
  \<comment> \<open>The \<open>disabled\<close> attribute of the form's submit button.\<close>
  "submitDisabled s \<longleftrightarrow>
     isProcessing s \<or> audience s = [] \<or> trim (st_message s) = [] \<or>
     trim (st_broadcastLabel s) = [] \<or> \<not> st_acknowledgedCompliance s \<or>
     (st_audienceMode s = Tag \<and> \<not> truthy (st_audienceTag s))"

section \<open>Status aggregation (the first effect of Home)\<close>

definition relatedEntries :: "DeliveryLogEntry list \<Rightarrow> Broadcast \<Rightarrow> DeliveryLogEntry list" where
  "relatedEntries deliveries broadcast =
     filter (\<lambda>entry. d_broadcastId entry = b_id broadcast) deliveries"

definition countStatus :: "DeliveryStatus \<Rightarrow> DeliveryLogEntry list \<Rightarrow> nat" where
  "countStatus st entries = length (filter (\<lambda>entry. d_status entry = st) entries)"

definition inFlight :: "DeliveryLogEntry list \<Rightarrow> bool" where
  "inFlight entries = list_ex (\<lambda>entry. d_status entry = Pending \<or> d_status entry = Sending) entries"

definition aggregate :: "DeliveryLogEntry list \<Rightarrow> Broadcast \<Rightarrow> Broadcast" where
  "aggregate deliveries broadcast =
     (let related = relatedEntries deliveries broadcast
      in if related = [] then broadcast
         else
           (let delivered = countStatus Delivered related;
                failed = countStatus DeliveryFailed related;
                status =
                  (if failed = length related \<and> delivered = 0 then Failed
                   else if inFlight related then InProgress
                   else if delivered + failed \<ge> length related then Completed
                   else if truthy (b_scheduledFor broadcast) then Scheduled
                   else b_status broadcast)
            in if status = b_status broadcast \<and> delivered = b_delivered broadcast \<and>
                  failed = b_failed broadcast
               then broadcast
               else broadcast\<lparr>b_delivered := delivered, b_failed := failed, b_status := status\<rparr>))"

definition aggregateEffect :: "App \<Rightarrow> App" where
  "aggregateEffect s = s\<lparr>st_broadcasts := map (aggregate (st_deliveries s)) (st_broadcasts s)\<rparr>"



section \<open>Dispatch (the second effect of Home)\<close>

definition eligible :: "(string \<Rightarrow> int option) \<Rightarrow> int \<Rightarrow> DeliveryLogEntry \<Rightarrow> bool" where
  \<comment> \<open>\<open>getTime\<close> is \<open>new Date(iso).getTime()\<close>, with \<open>None\<close> for NaN.\<close>
  "eligible getTime now entry \<longleftrightarrow>
     d_status entry = Pending \<and>
     (\<not> truthy (d_scheduledFor entry) \<or>
      (case getTime (the (d_scheduledFor entry)) of None \<Rightarrow> False | Some t \<Rightarrow> t \<le> now + 500))"

definition markSending :: "string \<Rightarrow> string \<Rightarrow> DeliveryLogEntry \<Rightarrow> DeliveryLogEntry" where
  "markSending nextId startIso entry =
     (if d_id entry = nextId then entry\<lparr>d_status := Sending, d_startedAt := Some startIso\<rparr>
      else entry)"

definition markDone :: "string \<Rightarrow> bool \<Rightarrow> string \<Rightarrow> DeliveryLogEntry \<Rightarrow> DeliveryLogEntry" where
  "markDone nextId shouldFail completedAt entry =
     (if d_id entry = nextId
      then entry\<lparr>d_status := (if shouldFail then DeliveryFailed else Delivered),
                 d_completedAt := Some completedAt,
                 d_error := (if shouldFail
                             then Some ''WhatsApp API returned a temporary error. Retry later.''
                             else None)\<rparr>
      else entry)"

definition dispatchEffect :: "(string \<Rightarrow> int option) \<Rightarrow> int \<Rightarrow> string \<Rightarrow> bool \<Rightarrow> App \<Rightarrow> App" where
  \<comment> \<open>The body of the effect.  It returns a clean-up function only when it started a send.\<close>
  "dispatchEffect getTime now startIso shouldFail s =
     (if st_processingRef s then s\<lparr>st_cleanup := None\<rparr>
      else
        (case find (eligible getTime now) (st_deliveries s) of
           None \<Rightarrow> s\<lparr>st_cleanup := None\<rparr>
         | Some next \<Rightarrow>
             s\<lparr>st_processingRef := True,
               st_deliveries := map (markSending (d_id next) startIso) (st_deliveries s),
               st_timers := st_timers s @
                 [\<lparr>tm_handle = st_nextHandle s, tm_entryId = d_id next, tm_shouldFail = shouldFail\<rparr>],
               st_cleanup := Some (st_nextHandle s),
               st_nextHandle := Suc (st_nextHandle s)\<rparr>))"

definition dispatchCleanup :: "App \<Rightarrow> App" where
  \<comment> \<open>The function returned by the effect: \<open>clearTimeout(timeout); processingRef.current = false\<close>.\<close>
  "dispatchCleanup s =
     (case st_cleanup s of
        None \<Rightarrow> s
      | Some h \<Rightarrow>
          s\<lparr>st_timers := filter (\<lambda>t. tm_handle t \<noteq> h) (st_timers s),
            st_processingRef := False,
            st_cleanup := None\<rparr>)"

definition rerunDispatch :: "(string \<Rightarrow> int option) \<Rightarrow> int \<Rightarrow> string \<Rightarrow> bool \<Rightarrow> App \<Rightarrow> App" where
  \<comment> \<open>What React does with an effect whose dependency \<open>deliveries\<close> has changed: the
      clean-up of the previous run, then the body.\<close>
  "rerunDispatch getTime now startIso shouldFail s =
     dispatchEffect getTime now startIso shouldFail (dispatchCleanup s)"

definition timerFire :: "string \<Rightarrow> Timer \<Rightarrow> App \<Rightarrow> App" where
  \<comment> \<open>The callback of \<open>setTimeout\<close>.\<close>
  "timerFire completedAt t s =
     s\<lparr>st_deliveries := map (markDone (tm_entryId t) (tm_shouldFail t) completedAt) (st_deliveries s),
       st_processingRef := False,
       st_timers := filter (\<lambda>u. tm_handle u \<noteq> tm_handle t) (st_timers s)\<rparr>"

definition countSending :: "App \<Rightarrow> nat" where
  "countSending s = countStatus Sending (st_deliveries s)"

section \<open>Reachable states\<close>

definition initial :: "App \<Rightarrow> bool" where
  \<comment> \<open>A first visit: no broadcast, no delivery task, nothing in flight.\<close>
  "initial s \<longleftrightarrow>
     st_broadcasts s = [] \<and> st_deliveries s = [] \<and> \<not> st_processingRef s \<and>
     st_timers s = [] \<and> st_cleanup s = None"

definition sameStores :: "App \<Rightarrow> App \<Rightarrow> bool" where
  \<comment> \<open>The two states differ at most in the contacts, the templates and the form fields.\<close>
  "sameStores s s' \<longleftrightarrow>
     st_broadcasts s' = st_broadcasts s \<and> st_deliveries s' = st_deliveries s \<and>
     st_processingRef s' = st_processingRef s \<and> st_timers s' = st_timers s \<and>
     st_cleanup s' = st_cleanup s \<and> st_nextHandle s' = st_nextHandle s"

text \<open>
  The states the page can be in.  Identifiers drawn by \<open>nanoid\<close> are new: the one of a
  launched broadcast is the identifier of no earlier broadcast.
\<close>

inductive reachable :: "App \<Rightarrow> bool" where
  r_initial: "initial s \<Longrightarrow> reachable s"
| r_edit: "reachable s \<Longrightarrow> sameStores s s' \<Longrightarrow> reachable s'"
| r_submit: "reachable s \<Longrightarrow> nanoid 0 \<notin> b_id ` set (st_broadcasts s) \<Longrightarrow>
     reachable (handleSubmit nanoid isoNow s)"
| r_aggregate: "reachable s \<Longrightarrow> reachable (aggregateEffect s)"
| r_dispatch: "reachable s \<Longrightarrow> reachable (rerunDispatch getTime now startIso shouldFail s)"
| r_timer: "reachable s \<Longrightarrow> t \<in> set (st_timers s) \<Longrightarrow> reachable (timerFire completedAt t s)"

definition wellFormed :: "App \<Rightarrow> bool" where
  \<comment> \<open>Every broadcast has as many tasks as \<open>totalRecipients\<close> says, at least one, and every
      task belongs to a broadcast.\<close>
  "wellFormed s \<longleftrightarrow>
     (\<forall>b \<in> set (st_broadcasts s).
        relatedEntries (st_deliveries s) b \<noteq> [] \<and>
        length (relatedEntries (st_deliveries s) b) = b_totalRecipients b) \<and>
     (\<forall>d \<in> set (st_deliveries s). d_broadcastId d \<in> b_id ` set (st_broadcasts s))"

section \<open>Sample data\<close>

definition dana :: Contact where
  "dana = \<lparr>c_id = ''cDana'', c_name = ''Dana Lee'', c_phone = ''+14155550138'',
     c_tags = [''acme-company'', ''vip''], c_notes = None, c_optIn = True, c_createdAt = ''''\<rparr>"

definition sam :: Contact where
  "sam = \<lparr>c_id = ''cSam'', c_name = ''Sam Ortiz'', c_phone = ''+14155550139'',
     c_tags = [''vip''], c_notes = Some '''', c_optIn = False, c_createdAt = ''''\<rparr>"

definition kim :: Contact where
  "kim = \<lparr>c_id = ''cKim'', c_name = ''Kim'', c_phone = ''+14155550140'',
     c_tags = [], c_notes = Some ''{{fullName}}'', c_optIn = True, c_createdAt = ''''\<rparr>"

definition sampleApp :: App where
  "sampleApp =
     \<lparr>st_contacts = [dana, sam, kim], st_templates = [], st_broadcasts = [], st_deliveries = [],
      st_selectedTemplateId = None, st_message = ''Hi {{firstName}}'',
      st_broadcastLabel = ''Spring launch'', st_scheduledFor = None, st_audienceTag = None,
      st_audienceMode = All, st_acknowledgedCompliance = True, st_processingRef = False,
      st_timers = [], st_cleanup = None, st_nextHandle = 0\<rparr>"

definition sampleIds :: "nat \<Rightarrow> string" where
  "sampleIds n = replicate (Suc n) CHR ''i''"

definition unacknowledged :: App where
  "unacknowledged = sampleApp\<lparr>st_acknowledgedCompliance := False\<rparr>"

definition tagUnset :: App where
  "tagUnset = sampleApp\<lparr>st_audienceMode := Tag, st_audienceTag := None\<rparr>"

definition launched :: App where
  "launched = handleSubmit sampleIds ''t'' sampleApp"

definition noDate :: "string \<Rightarrow> int option" where
  "noDate isoString = None"

definition firstRun :: App where
  "firstRun = rerunDispatch noDate 0 ''t1'' False launched"

definition secondRun :: App where
  "secondRun = rerunDispatch noDate 0 ''t2'' False firstRun"

definition thirdRun :: App where
  "thirdRun = rerunDispatch noDate 0 ''t3'' False secondRun"




definition soloLaunched :: App where
  "soloLaunched = handleSubmit sampleIds ''t'' (sampleApp\<lparr>st_contacts := [dana]\<rparr>)"

definition soloSent :: App where
  "soloSent = rerunDispatch noDate 0 ''t1'' True soloLaunched"

definition soloFailed :: App where
  "soloFailed =
     timerFire ''t2'' \<lparr>tm_handle = 0, tm_entryId = ''ii'', tm_shouldFail = True\<rparr> soloSent"

definition failedBroadcast :: Broadcast where
  "failedBroadcast =
     aggregate (st_deliveries soloFailed)
       (newBroadcast sampleIds ''t'' (sampleApp\<lparr>st_contacts := [dana]\<rparr>))"

section \<open>Templates made of text and placeholders\<close>

text \<open>
  The six recognised placeholders, in the order in which \<open>personaliseMessage\<close> replaces
  them, and the value that the specification gives to each.  These values are written from
  the specification's words, not from \<open>firstNameOf\<close>, \<open>companyOf\<close>, \<open>notesOf\<close> and
  \<open>firstTagOf\<close>; the first name is the one that \<open>split(" ")\<close> yields.
\<close>

datatype Token = FirstName | FullName | Company | Notes | TagToken | Phone

fun tokenName :: "Token \<Rightarrow> string" where
  "tokenName FirstName = ''firstName''"
| "tokenName FullName = ''fullName''"
| "tokenName Company = ''company''"
| "tokenName Notes = ''notes''"
| "tokenName TagToken = ''tag''"
| "tokenName Phone = ''phone''"

definition tokenNames :: "string list" where
  "tokenNames = [''firstName'', ''fullName'', ''company'', ''notes'', ''tag'', ''phone'']"

fun laterNames :: "Token \<Rightarrow> string list" where
  "laterNames FirstName = [''fullName'', ''company'', ''notes'', ''tag'', ''phone'']"
| "laterNames FullName = [''company'', ''notes'', ''tag'', ''phone'']"
| "laterNames Company = [''notes'', ''tag'', ''phone'']"
| "laterNames Notes = [''tag'', ''phone'']"
| "laterNames TagToken = [''phone'']"
| "laterNames Phone = []"

fun tokenValue :: "Token \<Rightarrow> Contact \<Rightarrow> string" where
  "tokenValue FirstName contact = takeWhile (\<lambda>c. c \<noteq> CHR '' '') (trim (c_name contact))"
| "tokenValue FullName contact = c_name contact"
| "tokenValue Company contact =
     (case filter (\<lambda>tag. sublist ''company'' (toLowerCase tag)) (c_tags contact) of
        tag # _ \<Rightarrow> tag
      | [] \<Rightarrow> (case c_tags contact of tag # _ \<Rightarrow> tag | [] \<Rightarrow> ''your team''))"
| "tokenValue Notes contact = (case c_notes contact of Some notes \<Rightarrow> notes | None \<Rightarrow> [])"
| "tokenValue TagToken contact = (case c_tags contact of tag # _ \<Rightarrow> tag | [] \<Rightarrow> [])"
| "tokenValue Phone contact = c_phone contact"

text \<open>
  \<open>literalFails p s\<close>: matching the pattern text \<open>p\<close> at the start of \<open>s\<close> meets a
  character that differs before \<open>s\<close> ends.  \<open>tokenFails name s\<close>: the attempt to match
  the placeholder at the start of \<open>s\<close> fails in this way, so it fails whatever follows
  \<open>s\<close>.  A text is inert for a list of names when this holds at each of its positions for
  each of the names.
\<close>

fun literalFails :: "string \<Rightarrow> string \<Rightarrow> bool" where
  "literalFails [] s = False"
| "literalFails (p # ps) [] = False"
| "literalFails (p # ps) (c # cs) = (canonicalize p \<noteq> canonicalize c \<or> literalFails ps cs)"

definition tokenFails :: "string \<Rightarrow> string \<Rightarrow> bool" where
  "tokenFails name s =
     (case matchLiteral ''{{'' s of
        None \<Rightarrow> literalFails ''{{'' s
      | Some s1 \<Rightarrow>
          (case matchLiteral name (dropWhile isWhiteSpace s1) of
             None \<Rightarrow> literalFails name (dropWhile isWhiteSpace s1)
           | Some s2 \<Rightarrow> literalFails ''}}'' (dropWhile isWhiteSpace s2)))"

fun inertFor :: "string list \<Rightarrow> string \<Rightarrow> bool" where
  "inertFor names [] = True"
| "inertFor names (c # cs) = (list_all (\<lambda>name. tokenFails name (c # cs)) names \<and> inertFor names cs)"

text \<open>
  A replacement value is literal when \<open>String.replace\<close> inserts it as it is: no dollar
  sign in it is followed by a dollar sign, an ampersand, a back quote or a quote.
\<close>

fun literalReplacement :: "string \<Rightarrow> bool" where
  "literalReplacement [] = True"
| "literalReplacement [c] = True"
| "literalReplacement (c # d # r) =
     ((c = CHR ''$'' \<longrightarrow> d \<notin> {CHR ''$'', CHR ''&'', CHR 0x60, CHR 0x27}) \<and> literalReplacement (d # r))"

text \<open>
  A template as a list of pieces: text, and placeholders with the white space and the
  spelling found between their braces.  \<open>okPiece\<close> is what the piece-by-piece reading of
  the six replacements needs; \<open>safePiece\<close> asks in addition that a value is inert for all
  six names.  \<open>passPiece\<close> and \<open>stagePiece\<close> are what one replacement needs and what
  holds between two replacements.
\<close>

datatype Piece = Text string | Placeholder Token string string string

fun pieceText :: "Piece \<Rightarrow> string" where
  "pieceText (Text s) = s"
| "pieceText (Placeholder k ws1 spelling ws2) = ''{{'' @ ws1 @ spelling @ ws2 @ ''}}''"

definition templateText :: "Piece list \<Rightarrow> string" where
  "templateText ps = concat (map pieceText ps)"

fun renderPiece :: "Contact \<Rightarrow> Piece \<Rightarrow> string" where
  "renderPiece contact (Text s) = s"
| "renderPiece contact (Placeholder k ws1 spelling ws2) = tokenValue k contact"

fun wellSpelled :: "Piece \<Rightarrow> bool" where
  "wellSpelled (Text s) = True"
| "wellSpelled (Placeholder k ws1 spelling ws2) =
     (list_all isWhiteSpace ws1 \<and> list_all isWhiteSpace ws2 \<and>
      map canonicalize spelling = map canonicalize (tokenName k))"

fun okPiece :: "Contact \<Rightarrow> Piece \<Rightarrow> bool" where
  "okPiece contact (Text s) = inertFor tokenNames s"
| "okPiece contact (Placeholder k ws1 spelling ws2) =
     (wellSpelled (Placeholder k ws1 spelling ws2) \<and>
      literalReplacement (tokenValue k contact) \<and>
      inertFor (laterNames k) (tokenValue k contact))"

fun safePiece :: "Contact \<Rightarrow> Piece \<Rightarrow> bool" where
  "safePiece contact (Text s) = inertFor tokenNames s"
| "safePiece contact (Placeholder k ws1 spelling ws2) =
     (wellSpelled (Placeholder k ws1 spelling ws2) \<and>
      literalReplacement (tokenValue k contact) \<and>
      inertFor tokenNames (tokenValue k contact))"

fun occursToken :: "string \<Rightarrow> string \<Rightarrow> bool" where
  "occursToken name [] = False"
| "occursToken name (c # cs) = (matchToken name (c # cs) \<noteq> None \<or> occursToken name cs)"

definition hasPlaceholder :: "string \<Rightarrow> bool" where
  "hasPlaceholder s = list_ex (\<lambda>name. occursToken name s) tokenNames"

fun substPiece :: "Token \<Rightarrow> string \<Rightarrow> Piece \<Rightarrow> Piece" where
  "substPiece k v (Text s) = Text s"
| "substPiece k v (Placeholder n ws1 spelling ws2) =
     (if n = k then Text v else Placeholder n ws1 spelling ws2)"

fun passPiece :: "string \<Rightarrow> Piece \<Rightarrow> bool" where
  "passPiece name (Text s) = inertFor [name] s"
| "passPiece name (Placeholder k ws1 spelling ws2) = wellSpelled (Placeholder k ws1 spelling ws2)"

fun stagePiece :: "Contact \<Rightarrow> string list \<Rightarrow> Piece \<Rightarrow> bool" where
  "stagePiece contact names (Text s) = inertFor names s"
| "stagePiece contact names (Placeholder k ws1 spelling ws2) =
     okPiece contact (Placeholder k ws1 spelling ws2)"

definition substAll :: "Contact \<Rightarrow> Piece \<Rightarrow> Piece" where
  "substAll contact p =
     substPiece Phone (tokenValue Phone contact)
       (substPiece TagToken (tokenValue TagToken contact)
          (substPiece Notes (tokenValue Notes contact)
             (substPiece Company (tokenValue Company contact)
                (substPiece FullName (tokenValue FullName contact)
                   (substPiece FirstName (tokenValue FirstName contact) p)))))"

text \<open>
  The first name as the specification words it: the first segment delimited by white space,
  and the full name when there is none.
\<close>

definition specFirstName :: "string \<Rightarrow> string" where
  "specFirstName name =
     (let segment = takeWhile (\<lambda>c. \<not> isWhiteSpace c) (dropWhile isWhiteSpace name)
      in if segment = [] then name else segment)"

definition lee :: Contact where
  "lee = \<lparr>c_id = ''cLee'', c_name = ''Dana Lee'', c_phone = ''+14155550138'',
     c_tags = [''vip'', ''Acme-COMPANY''], c_notes = Some ''$20 fee {x}'', c_optIn = True,
     c_createdAt = ''''\<rparr>"

definition greeting :: "Piece list" where
  "greeting =
     [Text ''Hi '', Placeholder FirstName '' '' ''FIRSTname'' [],
      Text '' of '', Placeholder Company [] ''company'' [],
      Text '' ({{meetingTime}}): '', Placeholder Notes [] ''Notes'' '' '',
      Text '' #'', Placeholder TagToken [] ''tag'' [],
      Text '', call '', Placeholder Phone [] ''phone'' ''  '']"

definition tabbed :: Contact where
  "tabbed = dana\<lparr>c_name := [CHR ''D'', CHR ''a'', CHR ''n'', CHR ''a'', CHR 0x09, CHR ''L'', CHR ''e'', CHR ''e'']\<rparr>"

definition nested :: Contact where
  "nested = dana\<lparr>c_name := ''{{phone}}''\<rparr>"

definition dollar :: Contact where
  "dollar = dana\<lparr>c_name := ''$&''\<rparr>"

definition blank :: Contact where
  "blank = dana\<lparr>c_name := ''  ''\<rparr>"

definition unclosed :: "Piece list" where
  "unclosed = [Text ''{{'', Placeholder FirstName [] ''firstName'' [], Text ''phone}}'']"

section \<open>Audience resolution: properties\<close>

text \<open>
  C5.  In mode \<open>all\<close> the resolved audience is exactly the opted-in contacts in their
  original order.  In mode \<open>tag\<close> with a set (non-empty) target tag it is exactly the
  opted-in contacts that carry a tag equal to the target tag up to case, again in their
  original order.
\<close>

theorem filteredContacts_resolves:
  "filteredContacts contacts All audienceTag = filter c_optIn contacts \<and>
   (t \<noteq> [] \<longrightarrow>
      filteredContacts contacts Tag (Some t) =
        filter (\<lambda>c. c_optIn c \<and> (\<exists>tag \<in> set (c_tags c). toLowerCase tag = toLowerCase t))
          contacts)"
  by (simp add: filteredContacts_def optedInContacts_def truthy_def hasTag_def list_ex_iff
      conj_commute)

theorem filteredContacts_resolves_witness:
  "filteredContacts [dana, sam, kim] Tag (Some ''VIP'') = [dana]"
  using filteredContacts_resolves [of "[dana, sam, kim]" None "''VIP''"]
  by (simp add: dana_def sam_def kim_def toLowerCase_def lowerChar_def char_of_def
      bit_Suc_0_iff)

lemmas js_eval = toLowerCase_def lowerChar_def canonicalize_def char_of_def bit_Suc_0_iff
  isWhiteSpace_def trim_def truthy_def matchToken_def replaceAll_def

lemmas sample_defs = sampleApp_def dana_def sam_def kim_def

lemma audience_sample: "audience sampleApp = [dana, kim]"
  by (simp add: audience_def filteredContacts_def optedInContacts_def sample_defs js_eval)

section \<open>Launching: properties\<close>

text \<open>
  C9.  A submission whose trimmed label is empty, or whose trimmed message is empty, or
  whose resolved audience is empty returns at once and leaves the whole state as it was:
  no broadcast and no delivery task is created and nothing else is modified.
\<close>

theorem handleSubmit_rejects:
  "trim (st_broadcastLabel s) = [] \<or> trim (st_message s) = [] \<or> audience s = [] \<Longrightarrow>
   handleSubmit nanoid isoNow s = s"
  by (auto simp: handleSubmit_def)

theorem handleSubmit_rejects_witness:
  "handleSubmit sampleIds ''t'' (sampleApp\<lparr>st_broadcastLabel := ''   ''\<rparr>)
     = sampleApp\<lparr>st_broadcastLabel := ''   ''\<rparr>"
  using handleSubmit_rejects [of "sampleApp\<lparr>st_broadcastLabel := ''   ''\<rparr>" sampleIds "''t''"]
  by (simp add: js_eval)

text \<open>
  C10.  A submission without the compliance acknowledgement leaves the state as it was,
  whatever the label, the message and the audience are; and a submission that passes all
  four guards leaves the acknowledgement unset.
\<close>

theorem handleSubmit_compliance:
  "(\<not> st_acknowledgedCompliance s \<longrightarrow> handleSubmit nanoid isoNow s = s) \<and>
   (trim (st_broadcastLabel s) \<noteq> [] \<and> trim (st_message s) \<noteq> [] \<and>
    st_acknowledgedCompliance s \<and> audience s \<noteq> [] \<longrightarrow>
      \<not> st_acknowledgedCompliance (handleSubmit nanoid isoNow s))"
  by (simp add: handleSubmit_def Let_def handleLaunchBroadcast_def)

theorem handleSubmit_compliance_witness:
  "handleSubmit sampleIds ''t'' (sampleApp\<lparr>st_acknowledgedCompliance := False\<rparr>)
     = sampleApp\<lparr>st_acknowledgedCompliance := False\<rparr> \<and>
   \<not> st_acknowledgedCompliance (handleSubmit sampleIds ''t'' sampleApp)"
  using handleSubmit_compliance [of "sampleApp\<lparr>st_acknowledgedCompliance := False\<rparr>" sampleIds "''t''"]
    handleSubmit_compliance [of sampleApp sampleIds "''t''"] audience_sample
  by (simp add: js_eval sampleApp_def)

text \<open>
  C1 (amended).  A submission with a non-empty trimmed label, a non-empty trimmed message,
  the compliance acknowledgement set and a resolved audience of K \<ge> 1 contacts puts exactly
  one new broadcast in front of the broadcasts and appends exactly K delivery tasks, one per
  resolved contact in resolved order, each pending and carrying the contact's phone, name
  and rendered preview; the broadcast has \<open>totalRecipients = K\<close>, \<open>delivered = 0\<close>,
  \<open>failed = 0\<close> and is \<open>scheduled\<close> if \<open>scheduledFor\<close> is set and \<open>in_progress\<close> otherwise.
\<close>

theorem handleSubmit_launches:
  assumes "trim (st_broadcastLabel s) \<noteq> []" and "trim (st_message s) \<noteq> []"
    and "st_acknowledgedCompliance s" and "audience s \<noteq> []"
  shows "\<exists>b ds. st_broadcasts (handleSubmit nanoid isoNow s) = b # st_broadcasts s \<and>
      st_deliveries (handleSubmit nanoid isoNow s) = st_deliveries s @ ds \<and>
      length ds = length (audience s) \<and>
      (\<forall>i < length (audience s).
         d_status (ds ! i) = Pending \<and>
         d_broadcastId (ds ! i) = b_id b \<and>
         d_contactId (ds ! i) = c_id (audience s ! i) \<and>
         d_phone (ds ! i) = c_phone (audience s ! i) \<and>
         d_contactName (ds ! i) = c_name (audience s ! i) \<and>
         d_preview (ds ! i) = personaliseMessage (st_message s) (audience s ! i)) \<and>
      b_totalRecipients b = length (audience s) \<and> b_delivered b = 0 \<and> b_failed b = 0 \<and>
      b_status b = (if truthy (st_scheduledFor s) then Scheduled else InProgress)"
  using assms
  by (simp add: handleSubmit_def Let_def handleLaunchBroadcast_def newDeliveries_def
      newDelivery_def newBroadcast_def nth_enumerate_eq)

theorem handleSubmit_launches_witness:
  "\<exists>b ds. st_broadcasts (handleSubmit sampleIds ''t'' sampleApp) = [b] \<and>
      st_deliveries (handleSubmit sampleIds ''t'' sampleApp) = ds \<and> length ds = 2 \<and>
      d_status (ds ! 0) = Pending \<and> d_status (ds ! 1) = Pending \<and>
      b_totalRecipients b = 2 \<and> b_status b = InProgress"
proof -
  have 1: "trim (st_broadcastLabel sampleApp) \<noteq> []" by (simp add: sampleApp_def js_eval)
  have 2: "trim (st_message sampleApp) \<noteq> []" by (simp add: sampleApp_def js_eval)
  have 3: "st_acknowledgedCompliance sampleApp" by (simp add: sampleApp_def)
  have 4: "audience sampleApp \<noteq> []" by (simp add: audience_sample)
  have 5: "st_broadcasts sampleApp = []" "st_deliveries sampleApp = []"
    "st_scheduledFor sampleApp = None" by (simp_all add: sampleApp_def)
  from handleSubmit_launches [OF 1 2 3 4, of sampleIds "''t''"]
  show ?thesis by (auto simp: audience_sample 5 truthy_def)
qed

text \<open>
  C1 as stated fails without the acknowledgement: label, message and audience are valid,
  and nothing is created.
\<close>

theorem handleSubmit_launches_counterexample:
  "trim (st_broadcastLabel unacknowledged) \<noteq> [] \<and> trim (st_message unacknowledged) \<noteq> [] \<and>
   length (audience unacknowledged) = 2 \<and>
   st_broadcasts (handleSubmit sampleIds ''t'' unacknowledged) = [] \<and>
   st_deliveries (handleSubmit sampleIds ''t'' unacknowledged) = []"
  by (simp add: unacknowledged_def handleSubmit_def audience_def filteredContacts_def
      optedInContacts_def sample_defs js_eval)

text \<open>
  C4.  In mode \<open>tag\<close> with no target tag the submit button is disabled, but
  \<open>handleSubmit\<close> itself has no such guard: called in that state it launches a broadcast
  with target tag \<open>null\<close> to every opted-in contact.
\<close>

theorem handleSubmit_tag_unset:
  "map b_target (st_broadcasts (handleSubmit sampleIds ''t'' tagUnset)) = [TargetTag None] \<and>
   map b_totalRecipients (st_broadcasts (handleSubmit sampleIds ''t'' tagUnset)) = [2] \<and>
   map d_contactId (st_deliveries (handleSubmit sampleIds ''t'' tagUnset)) = [''cDana'', ''cKim'']"
  by (simp add: tagUnset_def handleSubmit_def handleLaunchBroadcast_def
      newBroadcast_def newDeliveries_def newDelivery_def Let_def enumerate_eq_zip upt_rec
      audience_def filteredContacts_def optedInContacts_def sample_defs js_eval)

lemma submitDisabled_tag_unset: "submitDisabled tagUnset"
  by (simp add: tagUnset_def submitDisabled_def sampleApp_def truthy_def)

section \<open>The invariant of the stores\<close>

lemma relatedEntries_map:
  assumes "\<And>e. d_broadcastId (f e) = d_broadcastId e"
  shows "relatedEntries (map f ds) b = map f (relatedEntries ds b)"
  by (simp add: relatedEntries_def filter_map o_def assms)

lemma relatedEntries_same_id:
  "b_id b' = b_id b \<Longrightarrow> relatedEntries ds b' = relatedEntries ds b"
  by (simp add: relatedEntries_def)

lemma aggregate_keeps:
  "b_id (aggregate ds b) = b_id b"
  "b_totalRecipients (aggregate ds b) = b_totalRecipients b"
  by (simp_all add: aggregate_def Let_def)

lemma markSending_broadcastId: "d_broadcastId (markSending i t e) = d_broadcastId e"
  by (simp add: markSending_def)

lemma markDone_broadcastId: "d_broadcastId (markDone i f t e) = d_broadcastId e"
  by (simp add: markDone_def)

lemma wellFormed_map:
  assumes wf: "wellFormed s"
    and f: "\<And>e. d_broadcastId (f e) = d_broadcastId e"
    and bs: "st_broadcasts s' = st_broadcasts s"
    and ds: "st_deliveries s' = map f (st_deliveries s)"
  shows "wellFormed s'"
  using wf unfolding wellFormed_def bs ds
  by (simp add: relatedEntries_map [of f, OF f] f)

lemma wellFormed_same:
  "wellFormed s \<Longrightarrow> st_broadcasts s' = st_broadcasts s \<Longrightarrow>
   st_deliveries s' = st_deliveries s \<Longrightarrow> wellFormed s'"
  by (simp add: wellFormed_def)

lemma wellFormed_aggregate: "wellFormed s \<Longrightarrow> wellFormed (aggregateEffect s)"
  unfolding wellFormed_def aggregateEffect_def
  by (auto simp: aggregate_keeps relatedEntries_same_id [OF aggregate_keeps(1)] image_image)

lemma wellFormed_dispatch:
  assumes "wellFormed s"
  shows "wellFormed (rerunDispatch getTime now startIso shouldFail s)"
proof -
  have c: "wellFormed (dispatchCleanup s)"
    by (rule wellFormed_same [OF assms]) (simp_all add: dispatchCleanup_def split: option.splits)
  show ?thesis
    unfolding rerunDispatch_def
  proof (cases "st_processingRef (dispatchCleanup s)")
    case True
    then show "wellFormed (dispatchEffect getTime now startIso shouldFail (dispatchCleanup s))"
      by (intro wellFormed_same [OF c]) (simp_all add: dispatchEffect_def)
  next
    case False
    show "wellFormed (dispatchEffect getTime now startIso shouldFail (dispatchCleanup s))"
    proof (cases "find (eligible getTime now) (st_deliveries (dispatchCleanup s))")
      case None
      with False show ?thesis
        by (intro wellFormed_same [OF c]) (simp_all add: dispatchEffect_def)
    next
      case (Some nxt)
      with False show ?thesis
        by (intro wellFormed_map [OF c, of "markSending (d_id nxt) startIso"])
          (simp_all add: dispatchEffect_def markSending_broadcastId)
    qed
  qed
qed

lemma wellFormed_timer: "wellFormed s \<Longrightarrow> wellFormed (timerFire completedAt t s)"
  by (rule wellFormed_map [of s "markDone (tm_entryId t) (tm_shouldFail t) completedAt"])
    (simp_all add: timerFire_def markDone_broadcastId)

lemma relatedEntries_new:
  "relatedEntries (newDeliveries nanoid s b) b' =
     (if b_id b = b_id b' then newDeliveries nanoid s b else [])"
  by (auto simp: relatedEntries_def newDeliveries_def newDelivery_def filter_map o_def)

lemma length_newDeliveries: "length (newDeliveries nanoid s b) = length (audience s)"
  by (simp add: newDeliveries_def)

lemma wellFormed_submit:
  assumes wf: "wellFormed s" and fresh: "nanoid 0 \<notin> b_id ` set (st_broadcasts s)"
  shows "wellFormed (handleSubmit nanoid isoNow s)"
proof (cases "handleSubmit nanoid isoNow s = s")
  case True
  then show ?thesis using wf by simp
next
  case False
  define b where "b = newBroadcast nanoid isoNow s"
  define ds where "ds = newDeliveries nanoid s b"
  from False have aud: "audience s \<noteq> []"
    by (auto simp: handleSubmit_def split: if_splits)
  from False have bs: "st_broadcasts (handleSubmit nanoid isoNow s) = b # st_broadcasts s"
    and dl: "st_deliveries (handleSubmit nanoid isoNow s) = st_deliveries s @ ds"
    by (auto simp: handleSubmit_def handleLaunchBroadcast_def Let_def b_def ds_def split: if_splits)
  have bid: "b_id b = nanoid 0" and tot: "b_totalRecipients b = length (audience s)"
    by (simp_all add: b_def newBroadcast_def)
  have old: "relatedEntries (st_deliveries s) b = []"
  proof -
    have "\<And>d. d \<in> set (st_deliveries s) \<Longrightarrow> d_broadcastId d \<noteq> nanoid 0"
      using wf fresh unfolding wellFormed_def by force
    then show ?thesis
      by (simp add: relatedEntries_def bid filter_empty_conv)
  qed
  have dsid: "\<forall>d \<in> set ds. d_broadcastId d = b_id b"
    by (auto simp: ds_def newDeliveries_def newDelivery_def)
  have new: "\<And>b'. b' \<in> set (st_broadcasts s) \<Longrightarrow> relatedEntries ds b' = []"
    using fresh bid unfolding ds_def relatedEntries_new by auto
  have app: "\<And>b'. relatedEntries (st_deliveries s @ ds) b' =
      relatedEntries (st_deliveries s) b' @ relatedEntries ds b'"
    by (simp add: relatedEntries_def)
  have self: "relatedEntries ds b = ds"
    by (simp add: ds_def relatedEntries_new)
  have l: "length ds = length (audience s)"
    by (simp add: ds_def length_newDeliveries)
  have len: "length ds = b_totalRecipients b" "ds \<noteq> []"
    using aud l by (auto simp: tot)
  have "\<forall>b' \<in> set (b # st_broadcasts s).
      relatedEntries (st_deliveries s @ ds) b' \<noteq> [] \<and>
      length (relatedEntries (st_deliveries s @ ds) b') = b_totalRecipients b'"
    using wf by (simp add: app old self len new wellFormed_def)
  moreover have "\<forall>d \<in> set (st_deliveries s @ ds).
      d_broadcastId d \<in> b_id ` set (b # st_broadcasts s)"
    using wf dsid by (auto simp: wellFormed_def)
  ultimately show ?thesis
    unfolding wellFormed_def bs dl by simp
qed

lemma reachable_wellFormed: "reachable s \<Longrightarrow> wellFormed s"
proof (induction rule: reachable.induct)
  case (r_initial s)
  then show ?case by (simp add: initial_def wellFormed_def)
next
  case (r_edit s s')
  then show ?case by (auto intro: wellFormed_same simp: sameStores_def)
next
  case (r_submit s nanoid isoNow)
  then show ?case by (simp add: wellFormed_submit)
next
  case (r_aggregate s)
  then show ?case by (simp add: wellFormed_aggregate)
next
  case (r_dispatch s getTime now startIso shouldFail)
  then show ?case by (simp add: wellFormed_dispatch)
next
  case (r_timer s t completedAt)
  then show ?case by (simp add: wellFormed_timer)
qed

section \<open>Status aggregation: properties\<close>



lemma countStatus_terminal:
  "\<not> inFlight xs \<Longrightarrow> countStatus Delivered xs + countStatus DeliveryFailed xs = length xs"
proof (induction xs)
  case Nil
  show ?case by (simp add: countStatus_def)
next
  case (Cons x xs)
  then show ?case by (cases "d_status x") (auto simp: countStatus_def inFlight_def)
qed

lemma countStatus_sum_le:
  "countStatus Delivered xs + countStatus DeliveryFailed xs \<le> length xs"
  by (induction xs) (auto simp: countStatus_def)

lemma aggregate_fields:
  assumes "relatedEntries ds b \<noteq> []"
  shows "b_delivered (aggregate ds b) = countStatus Delivered (relatedEntries ds b)"
    and "b_failed (aggregate ds b) = countStatus DeliveryFailed (relatedEntries ds b)"
    and "b_status (aggregate ds b) =
      (if countStatus DeliveryFailed (relatedEntries ds b) = length (relatedEntries ds b) \<and>
          countStatus Delivered (relatedEntries ds b) = 0 then Failed
       else if inFlight (relatedEntries ds b) then InProgress
       else Completed)"
proof -
  let ?r = "relatedEntries ds b"
  define status where "status =
     (if countStatus DeliveryFailed ?r = length ?r \<and> countStatus Delivered ?r = 0 then Failed
      else if inFlight ?r then InProgress
      else if countStatus Delivered ?r + countStatus DeliveryFailed ?r \<ge> length ?r then Completed
      else if truthy (b_scheduledFor b) then Scheduled
      else b_status b)"
  have agg: "aggregate ds b =
     (if status = b_status b \<and> countStatus Delivered ?r = b_delivered b \<and>
         countStatus DeliveryFailed ?r = b_failed b
      then b
      else b\<lparr>b_delivered := countStatus Delivered ?r, b_failed := countStatus DeliveryFailed ?r,
             b_status := status\<rparr>)"
    using assms unfolding aggregate_def Let_def status_def by simp
  have st: "status =
      (if countStatus DeliveryFailed ?r = length ?r \<and> countStatus Delivered ?r = 0 then Failed
       else if inFlight ?r then InProgress else Completed)"
    using countStatus_terminal [of ?r] unfolding status_def by simp
  show "b_delivered (aggregate ds b) = countStatus Delivered ?r"
    unfolding agg by simp
  show "b_failed (aggregate ds b) = countStatus DeliveryFailed ?r"
    unfolding agg by simp
  have "b_status (aggregate ds b) = status"
    unfolding agg by simp
  then show "b_status (aggregate ds b) =
      (if countStatus DeliveryFailed ?r = length ?r \<and> countStatus Delivered ?r = 0 then Failed
       else if inFlight ?r then InProgress else Completed)"
    using st by simp
qed







text \<open>
  C7.  After the aggregation effect has run in a reachable state, every broadcast has
  \<open>delivered + failed \<le> totalRecipients\<close>; if its status is \<open>completed\<close>, each of its tasks
  is delivered or failed; if its status is \<open>failed\<close>, then \<open>delivered = 0\<close> and
  \<open>failed = totalRecipients\<close>.
\<close>

theorem aggregate_invariant:
  assumes "reachable s" and "b \<in> set (st_broadcasts (aggregateEffect s))"
  shows "b_delivered b + b_failed b \<le> b_totalRecipients b \<and>
    (b_status b = Completed \<longrightarrow>
       (\<forall>e \<in> set (relatedEntries (st_deliveries s) b).
          d_status e = Delivered \<or> d_status e = DeliveryFailed)) \<and>
    (b_status b = Failed \<longrightarrow> b_delivered b = 0 \<and> b_failed b = b_totalRecipients b)"
proof -
  from assms(2) obtain b0 where b0: "b0 \<in> set (st_broadcasts s)"
    and b: "b = aggregate (st_deliveries s) b0"
    by (auto simp: aggregateEffect_def)
  let ?r = "relatedEntries (st_deliveries s) b0"
  have same: "relatedEntries (st_deliveries s) b = ?r"
    by (rule relatedEntries_same_id) (simp add: b aggregate_keeps)
  from reachable_wellFormed [OF assms(1)] b0
  have ne: "?r \<noteq> []" and tot: "length ?r = b_totalRecipients b0"
    by (auto simp: wellFormed_def)
  note f = aggregate_fields [OF ne]
  have 1: "b_delivered b + b_failed b \<le> b_totalRecipients b"
    using countStatus_sum_le [of ?r] unfolding b by (simp add: f aggregate_keeps tot)
  have 2: "b_status b = Completed \<longrightarrow>
       (\<forall>e \<in> set ?r. d_status e = Delivered \<or> d_status e = DeliveryFailed)"
  proof
    assume "b_status b = Completed"
    then have nf: "\<not> inFlight ?r" unfolding b by (simp add: f split: if_splits)
    show "\<forall>e \<in> set ?r. d_status e = Delivered \<or> d_status e = DeliveryFailed"
    proof
      fix e assume "e \<in> set ?r"
      with nf show "d_status e = Delivered \<or> d_status e = DeliveryFailed"
        by (cases "d_status e") (auto simp: inFlight_def list_ex_iff)
    qed
  qed
  have 3: "b_status b = Failed \<longrightarrow> b_delivered b = 0 \<and> b_failed b = b_totalRecipients b"
    unfolding b by (simp add: f aggregate_keeps tot split: if_splits)
  show ?thesis using 1 2 3 by (simp add: same)
qed

lemmas launch_defs = handleSubmit_def handleLaunchBroadcast_def newBroadcast_def
  newDeliveries_def newDelivery_def selectedTemplate_def audience_def filteredContacts_def
  optedInContacts_def personaliseMessage_def firstNameOf_def companyOf_def notesOf_def
  firstTagOf_def sampleIds_def enumerate_eq_zip upt_rec Let_def

lemmas dispatch_defs = rerunDispatch_def dispatchEffect_def dispatchCleanup_def eligible_def
  markSending_def countSending_def countStatus_def

section \<open>Dispatch: properties\<close>

lemma launched_eval:
  "launched = sampleApp
     \<lparr>st_broadcasts :=
        [\<lparr>b_id = ''i'', b_label = ''Spring launch'', b_templateId = ''custom'',
          b_target = TargetContactIds [''cDana'', ''cKim''], b_scheduledFor = None,
          b_createdAt = ''t'', b_status = InProgress, b_totalRecipients = 2,
          b_delivered = 0, b_failed = 0\<rparr>],
      st_deliveries :=
        [\<lparr>d_id = ''ii'', d_broadcastId = ''i'', d_contactId = ''cDana'',
          d_contactName = ''Dana Lee'', d_phone = ''+14155550138'', d_scheduledFor = None,
          d_status = Pending, d_preview = ''Hi Dana'', d_startedAt = None,
          d_completedAt = None, d_error = None\<rparr>,
         \<lparr>d_id = ''iii'', d_broadcastId = ''i'', d_contactId = ''cKim'',
          d_contactName = ''Kim'', d_phone = ''+14155550140'', d_scheduledFor = None,
          d_status = Pending, d_preview = ''Hi Kim'', d_startedAt = None,
          d_completedAt = None, d_error = None\<rparr>],
      st_message := [], st_broadcastLabel := ''Follow-up broadcast'',
      st_acknowledgedCompliance := False\<rparr>"
  by (simp add: launched_def launch_defs sample_defs js_eval)

lemma reachable_launched: "reachable launched"
  unfolding launched_def
  by (rule r_submit [OF r_initial]) (simp_all add: initial_def sampleApp_def)

lemma reachable_runs: "reachable firstRun" "reachable secondRun" "reachable thirdRun"
  unfolding firstRun_def secondRun_def thirdRun_def
  by (intro r_dispatch reachable_launched)+

lemma runs_eval:
  "countSending launched = 0" "countSending firstRun = 1"
  "countSending secondRun = 2" "countSending thirdRun = 2" "st_timers thirdRun = []"
  by (simp_all add: thirdRun_def secondRun_def firstRun_def launched_eval
      sampleApp_def dispatch_defs noDate_def truthy_def)

text \<open>
  C2.  The busy flag does not keep the sends apart.  After a launch to two contacts the
  effect marks the first task as sending; that changes \<open>deliveries\<close>, so React runs the
  effect's clean-up, which clears the timeout and resets the flag, and then the effect
  again, which marks the second task as sending.  Both tasks are then sending, and after the
  next run no timeout is left to complete either.
\<close>

theorem dispatch_two_sending:
  "reachable secondRun \<and> reachable thirdRun \<and>
   countSending launched = 0 \<and> countSending firstRun = 1 \<and>
   countSending secondRun = 2 \<and> countSending thirdRun = 2 \<and> st_timers thirdRun = []"
  using reachable_runs runs_eval by simp

section \<open>Status aggregation on the sample launches\<close>

lemma soloSent_eval:
  "st_broadcasts soloSent = [newBroadcast sampleIds ''t'' (sampleApp\<lparr>st_contacts := [dana]\<rparr>)]"
  "st_timers soloSent = [\<lparr>tm_handle = 0, tm_entryId = ''ii'', tm_shouldFail = True\<rparr>]"
  "map d_status (st_deliveries soloSent) = [Sending]"
  "map d_id (st_deliveries soloSent) = [''ii'']"
  "map d_broadcastId (st_deliveries soloSent) = [''i'']"
  by (simp_all add: soloSent_def soloLaunched_def launch_defs dispatch_defs sample_defs js_eval
      noDate_def)

lemma reachable_soloFailed: "reachable soloFailed"
proof -
  have "reachable soloLaunched"
    unfolding soloLaunched_def
    by (rule r_submit [OF r_initial]) (simp_all add: initial_def sampleApp_def)
  then have "reachable soloSent"
    unfolding soloSent_def by (rule r_dispatch)
  then show ?thesis
    unfolding soloFailed_def by (rule r_timer) (simp add: soloSent_eval)
qed

theorem aggregate_invariant_witness:
  "b_status failedBroadcast = Failed \<and> b_delivered failedBroadcast = 0 \<and>
   b_failed failedBroadcast = b_totalRecipients failedBroadcast \<and>
   b_delivered failedBroadcast + b_failed failedBroadcast \<le> b_totalRecipients failedBroadcast"
proof -
  have m: "failedBroadcast \<in> set (st_broadcasts (aggregateEffect soloFailed))"
    by (simp add: aggregateEffect_def failedBroadcast_def soloFailed_def timerFire_def
        soloSent_eval)
  have "map d_status (st_deliveries soloFailed) = [DeliveryFailed]"
    "map d_broadcastId (st_deliveries soloFailed) = [''i'']"
    using soloSent_eval(3,4,5)
    by (auto simp: soloFailed_def timerFire_def markDone_def)
  then have st: "b_status failedBroadcast = Failed"
    by (auto simp: failedBroadcast_def aggregate_def relatedEntries_def countStatus_def
        newBroadcast_def sampleIds_def Let_def)
  from aggregate_invariant [OF reachable_soloFailed m] st show ?thesis by simp
qed

section \<open>Personalisation: properties\<close>

lemma canonicalize_fixed:
  "isWhiteSpace c \<or> c = CHR ''{'' \<or> c = CHR ''}'' \<Longrightarrow> canonicalize c = c"
  by (auto simp: isWhiteSpace_def canonicalize_def)

lemma canonicalize_brace: "canonicalize c = CHR ''{'' \<longleftrightarrow> c = CHR ''{''"
proof
  assume a: "canonicalize c = CHR ''{''"
  show "c = CHR ''{''"
  proof (rule ccontr)
    assume n: "c \<noteq> CHR ''{''"
    with a have "char_of (of_char c - 32 :: nat) = CHR ''{''"
      and r: "(97 \<le> (of_char c :: nat) \<and> (of_char c :: nat) \<le> 122) \<or>
         (224 \<le> (of_char c :: nat) \<and> (of_char c :: nat) \<le> 246) \<or>
         (248 \<le> (of_char c :: nat) \<and> (of_char c :: nat) \<le> 254)"
      by (auto simp: canonicalize_def Let_def split: if_splits)
    then have "take_bit 8 (of_char c - 32 :: nat) = 123"
      by (simp add: char_of_eq_iff)
    moreover have "(of_char c :: nat) - 32 < 256" using r by auto
    ultimately have "(of_char c :: nat) - 32 = 123"
      by (simp add: take_bit_eq_mod)
    with r show False by auto
  qed
next
  assume "c = CHR ''{''"
  then show "canonicalize c = CHR ''{''" by (simp add: canonicalize_def)
qed

lemma tokenName_canonical:
  "p \<in> set (tokenName k) \<Longrightarrow>
     \<not> isWhiteSpace (canonicalize p) \<and> canonicalize p \<noteq> CHR ''{'' \<and> canonicalize p \<noteq> CHR ''}''"
  by (cases k) (auto simp: canonicalize_def isWhiteSpace_def char_of_def bit_Suc_0_iff)

lemma spelling_chars:
  assumes "map canonicalize spelling = map canonicalize (tokenName k)" and "x \<in> set spelling"
  shows "\<not> isWhiteSpace x \<and> x \<noteq> CHR ''{'' \<and> x \<noteq> CHR ''}''"
proof -
  from assms(2) have "canonicalize x \<in> set (map canonicalize spelling)" by simp
  with assms(1) obtain p where p: "p \<in> set (tokenName k)" "canonicalize x = canonicalize p"
    by auto
  show ?thesis
  proof (rule ccontr)
    assume "\<not> ?thesis"
    then have "canonicalize x = x" by (intro canonicalize_fixed) auto
    with p(2) \<open>\<not> ?thesis\<close> tokenName_canonical [OF p(1)] show False by auto
  qed
qed

lemma matchLiteral_prefix:
  "matchLiteral p s = Some r \<Longrightarrow> map canonicalize (take (length p) s) = map canonicalize p"
  by (induction p s rule: matchLiteral.induct) (auto split: if_splits)

lemma matchLiteral_spelling:
  "map canonicalize spelling = map canonicalize name \<Longrightarrow>
   matchLiteral name (spelling @ r) = Some r"
proof (induction name arbitrary: spelling)
  case Nil
  then show ?case by simp
next
  case (Cons p ps)
  then obtain x xs where "spelling = x # xs" by (cases spelling) auto
  with Cons show ?case by auto
qed

lemma tokenName_initials:
  "take 2 (map canonicalize (tokenName k)) = take 2 (map canonicalize (tokenName n)) \<Longrightarrow> k = n"
  by (cases k; cases n; simp add: canonicalize_def char_of_def bit_Suc_0_iff)

lemma tokenName_length: "2 \<le> length (tokenName k)"
  by (cases k) simp_all

lemma matchLiteral_other:
  assumes "k \<noteq> n" and sp: "map canonicalize spelling = map canonicalize (tokenName n)"
  shows "matchLiteral (tokenName k) (spelling @ r) = None"
proof (rule ccontr)
  assume "matchLiteral (tokenName k) (spelling @ r) \<noteq> None"
  then obtain x where "matchLiteral (tokenName k) (spelling @ r) = Some x" by auto
  from matchLiteral_prefix [OF this]
  have "take 2 (map canonicalize (take (length (tokenName k)) (spelling @ r)))
      = take 2 (map canonicalize (tokenName k))" by simp
  moreover have len: "length spelling = length (tokenName n)"
    using sp by (metis length_map)
  have "take 2 (map canonicalize (take (length (tokenName k)) (spelling @ r)))
      = take 2 (map canonicalize spelling)"
    using tokenName_length [of k] tokenName_length [of n] len
    by (simp add: take_map min_def)
  ultimately have "take 2 (map canonicalize (tokenName k)) = take 2 (map canonicalize (tokenName n))"
    using sp by simp
  with assms(1) tokenName_initials show False by blast
qed

lemma dropWhile_white_spelling:
  assumes "list_all isWhiteSpace ws"
    and "map canonicalize spelling = map canonicalize (tokenName k)"
  shows "dropWhile isWhiteSpace (ws @ spelling @ r) = spelling @ r"
proof -
  from assms(2) tokenName_length [of k] obtain x xs where c: "spelling = x # xs"
    by (cases spelling) auto
  with spelling_chars [OF assms(2), of x] have "\<not> isWhiteSpace x" by simp
  with assms(1) c show ?thesis
    by (simp add: dropWhile_append2 list_all_iff)
qed

lemma dropWhile_white_close:
  "list_all isWhiteSpace ws \<Longrightarrow> dropWhile isWhiteSpace (ws @ ''}}'' @ r) = ''}}'' @ r"
  by (simp add: dropWhile_append2 list_all_iff isWhiteSpace_def)

lemma matchToken_own:
  assumes "wellSpelled (Placeholder k ws1 spelling ws2)"
  shows "matchToken (tokenName k) (pieceText (Placeholder k ws1 spelling ws2) @ rest) = Some rest"
proof -
  from assms have w1: "list_all isWhiteSpace ws1" and w2: "list_all isWhiteSpace ws2"
    and sp: "map canonicalize spelling = map canonicalize (tokenName k)" by simp_all
  have "matchLiteral ''{{'' (pieceText (Placeholder k ws1 spelling ws2) @ rest)
      = Some (ws1 @ spelling @ ws2 @ ''}}'' @ rest)" by simp
  moreover have "dropWhile isWhiteSpace (ws1 @ spelling @ ws2 @ ''}}'' @ rest)
      = spelling @ ws2 @ ''}}'' @ rest"
    by (rule dropWhile_white_spelling [OF w1 sp])
  moreover have "matchLiteral (tokenName k) (spelling @ ws2 @ ''}}'' @ rest)
      = Some (ws2 @ ''}}'' @ rest)"
    by (rule matchLiteral_spelling [OF sp])
  moreover have "dropWhile isWhiteSpace (ws2 @ ''}}'' @ rest) = ''}}'' @ rest"
    by (rule dropWhile_white_close [OF w2])
  moreover have "matchLiteral ''}}'' (''}}'' @ rest) = Some rest" by simp
  ultimately show ?thesis by (simp add: matchToken_def)
qed

lemma matchToken_other:
  assumes "wellSpelled (Placeholder n ws1 spelling ws2)" and "k \<noteq> n"
  shows "matchToken (tokenName k) (pieceText (Placeholder n ws1 spelling ws2) @ rest) = None"
proof -
  from assms have w1: "list_all isWhiteSpace ws1"
    and sp: "map canonicalize spelling = map canonicalize (tokenName n)" by simp_all
  have "matchLiteral ''{{'' (pieceText (Placeholder n ws1 spelling ws2) @ rest)
      = Some (ws1 @ spelling @ ws2 @ ''}}'' @ rest)" by simp
  moreover have "dropWhile isWhiteSpace (ws1 @ spelling @ ws2 @ ''}}'' @ rest)
      = spelling @ ws2 @ ''}}'' @ rest"
    by (rule dropWhile_white_spelling [OF w1 sp])
  moreover have "matchLiteral (tokenName k) (spelling @ ws2 @ ''}}'' @ rest) = None"
    by (rule matchLiteral_other [OF assms(2) sp])
  ultimately show ?thesis by (simp add: matchToken_def)
qed

lemma literalFails_None: "literalFails p s \<Longrightarrow> matchLiteral p (s @ r) = None"
  by (induction p s rule: literalFails.induct) auto

lemma literalFails_nonempty: "literalFails p s \<Longrightarrow> s \<noteq> []"
  by (cases p) auto

lemma matchLiteral_append: "matchLiteral p s = Some s' \<Longrightarrow> matchLiteral p (s @ r) = Some (s' @ r)"
  by (induction p s rule: matchLiteral.induct) (auto split: if_splits)

lemma dropWhile_append_nonempty:
  "dropWhile P xs \<noteq> [] \<Longrightarrow> dropWhile P (xs @ ys) = dropWhile P xs @ ys"
  by (induction xs) auto

lemma tokenFails_None:
  assumes "name \<noteq> []" and "tokenFails name s"
  shows "matchToken name (s @ r) = None"
proof (cases "matchLiteral ''{{'' s")
  case None
  with assms(2) have "literalFails ''{{'' s" by (simp add: tokenFails_def)
  then show ?thesis by (simp add: matchToken_def literalFails_None)
next
  case (Some s1)
  let ?u = "dropWhile isWhiteSpace s1"
  have opn: "matchLiteral ''{{'' (s @ r) = Some (s1 @ r)"
    by (rule matchLiteral_append [OF Some])
  show ?thesis
  proof (cases "matchLiteral name ?u")
    case None
    with Some assms(2) have f: "literalFails name ?u" by (simp add: tokenFails_def)
    then have "?u \<noteq> []" by (rule literalFails_nonempty)
    then have "dropWhile isWhiteSpace (s1 @ r) = ?u @ r" by (rule dropWhile_append_nonempty)
    with opn literalFails_None [OF f, of r] show ?thesis by (simp add: matchToken_def)
  next
    case inner: (Some s2)
    let ?w = "dropWhile isWhiteSpace s2"
    from inner Some assms(2) have f: "literalFails ''}}'' ?w" by (simp add: tokenFails_def)
    have "?u \<noteq> []"
    proof
      assume "?u = []"
      with inner assms(1) show False by (cases name) simp_all
    qed
    then have u: "dropWhile isWhiteSpace (s1 @ r) = ?u @ r" by (rule dropWhile_append_nonempty)
    have n: "matchLiteral name (?u @ r) = Some (s2 @ r)" by (rule matchLiteral_append [OF inner])
    from f have "?w \<noteq> []" by (rule literalFails_nonempty)
    then have w: "dropWhile isWhiteSpace (s2 @ r) = ?w @ r" by (rule dropWhile_append_nonempty)
    from opn u n w literalFails_None [OF f, of r] show ?thesis by (simp add: matchToken_def)
  qed
qed

lemma tokenName_nonempty: "tokenName k \<noteq> []"
  by (cases k) simp_all

lemma tokenNames_nonempty: "name \<in> set tokenNames \<Longrightarrow> name \<noteq> []"
  by (auto simp: tokenNames_def)

lemma replaceToken_inert:
  "name \<noteq> [] \<Longrightarrow> inertFor [name] s \<Longrightarrow>
   replaceToken name v pre (s @ rest) = s @ replaceToken name v (pre @ s) rest"
proof (induction s arbitrary: pre)
  case Nil
  show ?case by simp
next
  case (Cons c s)
  then have "tokenFails name (c # s)" by simp
  from tokenFails_None [OF Cons.prems(1) this, of rest]
  have "matchToken name (c # s @ rest) = None" by simp
  with Cons show ?case by simp
qed

lemma occursToken_inert:
  "name \<noteq> [] \<Longrightarrow> inertFor [name] s \<Longrightarrow> occursToken name (s @ rest) = occursToken name rest"
proof (induction s)
  case Nil
  show ?case by simp
next
  case (Cons c s)
  then have "tokenFails name (c # s)" by simp
  from tokenFails_None [OF Cons.prems(1) this, of rest]
  have "matchToken name (c # s @ rest) = None" by simp
  with Cons show ?case by simp
qed

lemma inertFor_subset:
  "set names' \<subseteq> set names \<Longrightarrow> inertFor names s \<Longrightarrow> inertFor names' s"
  by (induction s) (auto simp: list_all_iff)

lemma tokenFails_second: "d \<noteq> CHR ''{'' \<Longrightarrow> tokenFails name (c # d # cs)"
  using canonicalize_brace [of d] by (auto simp: tokenFails_def canonicalize_fixed)

lemma tokenFails_first: "c \<noteq> CHR ''{'' \<Longrightarrow> tokenFails name (c # cs)"
  using canonicalize_brace [of c] by (auto simp: tokenFails_def canonicalize_fixed)

lemma inertFor_no_brace: "CHR ''{'' \<notin> set s \<Longrightarrow> inertFor names s"
proof (induction s)
  case Nil
  show ?case by simp
next
  case (Cons c s)
  then have "c \<noteq> CHR ''{''" by auto
  with Cons show ?case by (simp add: list_all_iff tokenFails_first)
qed

lemma getSubstitution_literal:
  "literalReplacement v \<Longrightarrow> getSubstitution m pre post v = v"
  by (induction m pre post v rule: getSubstitution.induct) auto

lemma replaceToken_own:
  assumes wf: "wellSpelled (Placeholder k ws1 spelling ws2)" and v: "literalReplacement v"
  shows "\<exists>pre'. replaceToken (tokenName k) v pre (pieceText (Placeholder k ws1 spelling ws2) @ rest)
      = v @ replaceToken (tokenName k) v pre' rest"
proof -
  obtain cs where cs: "pieceText (Placeholder k ws1 spelling ws2) @ rest = CHR ''{'' # cs"
    by simp
  from matchToken_own [OF wf, of rest] have m: "matchToken (tokenName k) (CHR ''{'' # cs) = Some rest"
    by (simp only: cs)
  have "replaceToken (tokenName k) v pre (CHR ''{'' # cs)
      = v @ replaceToken (tokenName k) v
              (pre @ take (Suc (length cs) - length rest) (CHR ''{'' # cs)) rest"
    by (simp only: replaceToken.simps m option.case getSubstitution_literal [OF v])
  then show ?thesis by (simp only: cs) blast
qed

lemma piece_inner:
  assumes "wellSpelled (Placeholder n ws1 spelling ws2)"
  shows "CHR ''{'' \<notin> set (ws1 @ spelling @ ws2 @ ''}}'')"
proof -
  from assms have w1: "list_all isWhiteSpace ws1" and w2: "list_all isWhiteSpace ws2"
    and sp: "map canonicalize spelling = map canonicalize (tokenName n)" by simp_all
  have "\<And>c. isWhiteSpace c \<Longrightarrow> c \<noteq> CHR ''{''" by (auto simp: isWhiteSpace_def)
  with w1 w2 have "CHR ''{'' \<notin> set ws1" "CHR ''{'' \<notin> set ws2"
    by (auto simp: list_all_iff)
  moreover have "CHR ''{'' \<notin> set spelling" using spelling_chars [OF sp] by blast
  ultimately show ?thesis by simp
qed

lemma replaceToken_other:
  assumes wf: "wellSpelled (Placeholder n ws1 spelling ws2)" and kn: "k \<noteq> n"
  shows "\<exists>pre'. replaceToken (tokenName k) v pre (pieceText (Placeholder n ws1 spelling ws2) @ rest)
      = pieceText (Placeholder n ws1 spelling ws2) @ replaceToken (tokenName k) v pre' rest"
proof -
  define t where "t = ws1 @ spelling @ ws2 @ ''}}''"
  have t: "CHR ''{'' \<notin> set t" unfolding t_def by (rule piece_inner [OF wf])
  obtain d t' where dt: "t = d # t'" unfolding t_def by (cases ws1; cases spelling; cases ws2) auto
  with t have d: "d \<noteq> CHR ''{''" by auto
  have shape: "\<And>r. pieceText (Placeholder n ws1 spelling ws2) @ r = CHR ''{'' # CHR ''{'' # t @ r"
    by (simp add: t_def)
  from matchToken_other [OF wf kn, of rest]
  have m0: "matchToken (tokenName k) (CHR ''{'' # CHR ''{'' # t @ rest) = None"
    by (simp only: shape)
  have "inertFor [tokenName k] (CHR ''{'' # t)"
    using inertFor_no_brace [OF t, of "[tokenName k]"] tokenFails_second [OF d, of "tokenName k"]
    by (simp add: dt)
  from replaceToken_inert [OF tokenName_nonempty this, of v _ rest]
  have m1: "\<And>q. replaceToken (tokenName k) v q (CHR ''{'' # t @ rest)
      = CHR ''{'' # t @ replaceToken (tokenName k) v (q @ CHR ''{'' # t) rest"
    by simp
  have "replaceToken (tokenName k) v pre (CHR ''{'' # CHR ''{'' # t @ rest)
      = CHR ''{'' # replaceToken (tokenName k) v (pre @ ''{'') (CHR ''{'' # t @ rest)"
    by (simp only: replaceToken.simps m0 option.case)
  also have "\<dots> = CHR ''{'' # CHR ''{'' # t
      @ replaceToken (tokenName k) v ((pre @ ''{'') @ CHR ''{'' # t) rest"
    by (simp only: m1)
  finally show ?thesis unfolding shape by blast
qed

lemma templateText_Cons: "templateText (p # ps) = pieceText p @ templateText ps"
  by (simp add: templateText_def)

lemma replaceToken_pieces:
  assumes "list_all (passPiece (tokenName k)) ps"
    and "\<And>ws1 spelling ws2. Placeholder k ws1 spelling ws2 \<in> set ps \<Longrightarrow> literalReplacement v"
  shows "replaceToken (tokenName k) v pre (templateText ps) = templateText (map (substPiece k v) ps)"
  using assms
proof (induction ps arbitrary: pre)
  case Nil
  show ?case by (simp add: templateText_def)
next
  case (Cons p ps)
  from Cons.prems have wf: "passPiece (tokenName k) p"
    and rest: "list_all (passPiece (tokenName k)) ps" by simp_all
  have IH: "replaceToken (tokenName k) v pre (templateText ps)
      = templateText (map (substPiece k v) ps)" for pre
  proof (rule Cons.IH [OF rest])
    fix ws1 spelling ws2
    assume "Placeholder k ws1 spelling ws2 \<in> set ps"
    then show "literalReplacement v" using Cons.prems(2) [of ws1 spelling ws2] by simp
  qed
  show ?case
  proof (cases p)
    case (Text s)
    with wf have "inertFor [tokenName k] s" by simp
    from replaceToken_inert [OF tokenName_nonempty this] show ?thesis
      unfolding Text by (simp add: templateText_Cons IH)
  next
    case (Placeholder n ws1 spelling ws2)
    with wf have sp: "wellSpelled (Placeholder n ws1 spelling ws2)" by simp
    show ?thesis
    proof (cases "n = k")
      case True
      from Cons.prems(2) [of ws1 spelling ws2] have "literalReplacement v"
        by (simp add: Placeholder True)
      from replaceToken_own [OF sp [unfolded True] this, of pre "templateText ps"]
      obtain pre' where "replaceToken (tokenName k) v pre
          (pieceText (Placeholder k ws1 spelling ws2) @ templateText ps)
        = v @ replaceToken (tokenName k) v pre' (templateText ps)" by blast
      moreover have "templateText (map (substPiece k v) (Placeholder k ws1 spelling ws2 # ps))
          = v @ templateText (map (substPiece k v) ps)"
        by (simp add: templateText_Cons)
      ultimately show ?thesis unfolding Placeholder True
        by (simp only: templateText_Cons [of "Placeholder k ws1 spelling ws2"] IH)
    next
      case False
      then have "k \<noteq> n" by simp
      from replaceToken_other [OF sp this, of v pre "templateText ps"]
      obtain pre' where "replaceToken (tokenName k) v pre
          (pieceText (Placeholder n ws1 spelling ws2) @ templateText ps)
        = pieceText (Placeholder n ws1 spelling ws2)
          @ replaceToken (tokenName k) v pre' (templateText ps)" by blast
      moreover have "templateText (map (substPiece k v) (Placeholder n ws1 spelling ws2 # ps))
          = pieceText (Placeholder n ws1 spelling ws2) @ templateText (map (substPiece k v) ps)"
        using False by (simp add: templateText_Cons)
      ultimately show ?thesis unfolding Placeholder
        by (simp only: templateText_Cons [of "Placeholder n ws1 spelling ws2"] IH)
    qed
  qed
qed

lemma stage_pass:
  "stagePiece contact (tokenName k # laterNames k) p \<Longrightarrow> passPiece (tokenName k) p"
  by (cases p) (auto intro: inertFor_subset [of "[tokenName k]" "tokenName k # laterNames k"])

lemma stage_step:
  assumes "stagePiece contact (tokenName k # laterNames k) p"
  shows "stagePiece contact (laterNames k) (substPiece k (tokenValue k contact) p)"
proof (cases p)
  case (Text s)
  with assms show ?thesis
    by (auto intro: inertFor_subset [of "laterNames k" "tokenName k # laterNames k"])
next
  case (Placeholder n ws1 spelling ws2)
  with assms show ?thesis by auto
qed

lemma pass_step:
  assumes "list_all (stagePiece contact (tokenName k # laterNames k)) ps"
  shows "replaceAll (tokenName k) (tokenValue k contact) (templateText ps)
      = templateText (map (substPiece k (tokenValue k contact)) ps)"
    and "list_all (stagePiece contact (laterNames k)) (map (substPiece k (tokenValue k contact)) ps)"
proof -
  have 1: "list_all (passPiece (tokenName k)) ps"
    using assms by (auto simp: list_all_iff intro: stage_pass)
  have 2: "literalReplacement (tokenValue k contact)"
    if "Placeholder k ws1 spelling ws2 \<in> set ps" for ws1 spelling ws2
    using assms that by (auto simp: list_all_iff)
  show "replaceAll (tokenName k) (tokenValue k contact) (templateText ps)
      = templateText (map (substPiece k (tokenValue k contact)) ps)"
    unfolding replaceAll_def by (rule replaceToken_pieces [OF 1 2])
  show "list_all (stagePiece contact (laterNames k)) (map (substPiece k (tokenValue k contact)) ps)"
    using assms by (auto simp: list_all_iff intro: stage_step)
qed

lemma split_shape: "\<exists>xs. split sep s = takeWhile (\<lambda>c. c \<noteq> sep) s # xs"
  by (induction s) (auto split: list.splits)

lemma firstNameOf_value: "firstNameOf contact = tokenValue FirstName contact"
proof -
  from split_shape obtain xs where
    "split CHR '' '' (trim (c_name contact))
      = takeWhile (\<lambda>c. c \<noteq> CHR '' '') (trim (c_name contact)) # xs" by blast
  then show ?thesis by (simp add: firstNameOf_def)
qed

lemma startsWith_prefix: "startsWith s p \<longleftrightarrow> prefix p s"
  by (induction s p rule: startsWith.induct) auto

lemma includesStr_sublist: "includesStr s sub \<longleftrightarrow> sublist sub s"
proof (induction s)
  case Nil
  show ?case by (cases sub) simp_all
next
  case (Cons c s)
  show ?case
  proof (cases sub)
    case Nil
    then show ?thesis by simp
  next
    case (Cons x xs)
    with Cons.IH show ?thesis
      by (simp add: startsWith_prefix sublist_Cons_right)
  qed
qed

lemma find_filter: "find P xs = (case filter P xs of [] \<Rightarrow> None | x # _ \<Rightarrow> Some x)"
  by (induction xs) auto

lemma companyOf_value: "companyOf contact = tokenValue Company contact"
  by (simp add: companyOf_def find_filter includesStr_sublist split: list.splits)

lemma notesOf_value: "notesOf contact = tokenValue Notes contact"
  by (simp add: notesOf_def split: option.splits)

lemma firstTagOf_value: "firstTagOf contact = tokenValue TagToken contact"
  by (simp add: firstTagOf_def)

lemma substAll_text: "pieceText (substAll contact p) = renderPiece contact p"
proof (cases p)
  case (Text s)
  then show ?thesis by (simp add: substAll_def)
next
  case (Placeholder k ws1 spelling ws2)
  then show ?thesis by (cases k) (simp_all add: substAll_def)
qed

lemma okPiece_stage: "okPiece contact p \<Longrightarrow> stagePiece contact tokenNames p"
  by (cases p) simp_all

lemma personaliseMessage_pieces:
  assumes ok: "list_all (okPiece contact) ps"
  shows "personaliseMessage (templateText ps) contact = concat (map (renderPiece contact) ps)"
proof -
  let ?v = "\<lambda>k. tokenValue k contact"
  define p1 where "p1 = map (substPiece FirstName (?v FirstName)) ps"
  define p2 where "p2 = map (substPiece FullName (?v FullName)) p1"
  define p3 where "p3 = map (substPiece Company (?v Company)) p2"
  define p4 where "p4 = map (substPiece Notes (?v Notes)) p3"
  define p5 where "p5 = map (substPiece TagToken (?v TagToken)) p4"
  define p6 where "p6 = map (substPiece Phone (?v Phone)) p5"
  have s0: "list_all (stagePiece contact (tokenName FirstName # laterNames FirstName)) ps"
    using ok okPiece_stage [of contact] by (auto simp: list_all_iff tokenNames_def)
  note a1 = pass_step [OF s0, folded p1_def]
  have s1: "list_all (stagePiece contact (tokenName FullName # laterNames FullName)) p1"
    using a1(2) by simp
  note a2 = pass_step [OF s1, folded p2_def]
  have s2: "list_all (stagePiece contact (tokenName Company # laterNames Company)) p2"
    using a2(2) by simp
  note a3 = pass_step [OF s2, folded p3_def]
  have s3: "list_all (stagePiece contact (tokenName Notes # laterNames Notes)) p3"
    using a3(2) by simp
  note a4 = pass_step [OF s3, folded p4_def]
  have s4: "list_all (stagePiece contact (tokenName TagToken # laterNames TagToken)) p4"
    using a4(2) by simp
  note a5 = pass_step [OF s4, folded p5_def]
  have s5: "list_all (stagePiece contact (tokenName Phone # laterNames Phone)) p5"
    using a5(2) by simp
  note a6 = pass_step [OF s5, folded p6_def]
  have r1: "replaceAll ''firstName'' (firstNameOf contact) (templateText ps) = templateText p1"
    using a1(1) by (simp add: firstNameOf_value)
  have r2: "replaceAll ''fullName'' (c_name contact) (templateText p1) = templateText p2"
    using a2(1) by simp
  have r3: "replaceAll ''company'' (companyOf contact) (templateText p2) = templateText p3"
    using a3(1) by (simp add: companyOf_value)
  have r4: "replaceAll ''notes'' (notesOf contact) (templateText p3) = templateText p4"
    using a4(1) by (simp add: notesOf_value)
  have r5: "replaceAll ''tag'' (firstTagOf contact) (templateText p4) = templateText p5"
    using a5(1) by (simp add: firstTagOf_value)
  have r6: "replaceAll ''phone'' (c_phone contact) (templateText p5) = templateText p6"
    using a6(1) by simp
  have "personaliseMessage (templateText ps) contact = templateText p6"
    unfolding personaliseMessage_def by (simp only: r1 r2 r3 r4 r5 r6)
  also have "p6 = map (substAll contact) ps"
    by (simp add: p6_def p5_def p4_def p3_def p2_def p1_def substAll_def)
  also have "templateText (map (substAll contact) ps) = concat (map (renderPiece contact) ps)"
    by (simp add: templateText_def substAll_text o_def)
  finally show ?thesis .
qed

lemma safePiece_ok: "safePiece contact p \<Longrightarrow> okPiece contact p"
proof (cases p)
  case (Text s)
  then show "safePiece contact p \<Longrightarrow> okPiece contact p" by simp
next
  case (Placeholder k ws1 spelling ws2)
  assume "safePiece contact p"
  with Placeholder have "inertFor tokenNames (tokenValue k contact)"
    and rest: "wellSpelled (Placeholder k ws1 spelling ws2)" "literalReplacement (tokenValue k contact)"
    by simp_all
  moreover have "set (laterNames k) \<subseteq> set tokenNames"
    by (cases k) (auto simp: tokenNames_def)
  ultimately have "inertFor (laterNames k) (tokenValue k contact)"
    by (auto intro: inertFor_subset)
  with rest Placeholder show "okPiece contact p" by simp
qed

lemma safePiece_rendered: "safePiece contact p \<Longrightarrow> inertFor tokenNames (renderPiece contact p)"
  by (cases p) simp_all

lemma rendered_no_token:
  assumes "list_all (safePiece contact) ps" and "name \<in> set tokenNames"
  shows "\<not> occursToken name (concat (map (renderPiece contact) ps))"
  using assms(1)
proof (induction ps)
  case Nil
  show ?case by simp
next
  case (Cons p ps)
  then have "inertFor tokenNames (renderPiece contact p)" by (simp add: safePiece_rendered)
  with assms(2) have "inertFor [name] (renderPiece contact p)"
    by (auto intro: inertFor_subset)
  from occursToken_inert [OF tokenNames_nonempty [OF assms(2)] this] Cons show ?case by simp
qed

text \<open>
  C6 (amended).  \<open>personaliseMessage\<close> is a function of the template and the contact alone.
  Its output contains no recognised placeholder whenever the template is made of inert text
  and of recognised placeholders (in any letter case, with any white space inside the
  braces), and the contact's value for each placeholder that occurs is inert and holds no
  replacement pattern.  A text is inert when every attempt to match a recognised
  placeholder in it fails before the text ends: text without an opening brace, an
  unrecognised token like \<open>{{meetingTime}}\<close>, a brace that is not the last character.  The
  replacement patterns are a dollar sign followed by a dollar sign, an ampersand, a back
  quote or a quote.
\<close>

theorem personaliseMessage_no_placeholder:
  assumes "list_all (safePiece contact) ps"
  shows "\<not> hasPlaceholder (personaliseMessage (templateText ps) contact)"
proof -
  from assms have "list_all (okPiece contact) ps"
    by (auto simp: list_all_iff intro: safePiece_ok)
  then have "personaliseMessage (templateText ps) contact = concat (map (renderPiece contact) ps)"
    by (rule personaliseMessage_pieces)
  with rendered_no_token [OF assms] show ?thesis
    by (simp add: hasPlaceholder_def list_ex_iff)
qed

text \<open>
  C8 (amended).  For a template made of inert text and of recognised placeholders (in any
  letter case, with any white space inside the braces), and a contact whose value for each
  placeholder that occurs holds no replacement pattern and is inert for the placeholders
  replaced later, the output is the template with each placeholder replaced by its value:
  \<open>{{firstName}}\<close> by the part of the trimmed name before its first space character,
  \<open>{{fullName}}\<close> by the name, \<open>{{company}}\<close> by the first tag whose lower-case form
  contains \<open>company\<close>, else the first tag, else \<open>your team\<close>, \<open>{{notes}}\<close> by the notes or
  the empty string, \<open>{{tag}}\<close> by the first tag or the empty string, \<open>{{phone}}\<close> by the
  phone.  And \<open>Hi {{firstName}} from {{company}}\<close> rendered for the name \<open>Dana Lee\<close> with
  the tags \<open>acme-company\<close> and \<open>vip\<close> is \<open>Hi Dana from acme-company\<close>.
\<close>

theorem personaliseMessage_substitutes:
  "(list_all (okPiece contact) ps \<longrightarrow>
      personaliseMessage (templateText ps) contact = concat (map (renderPiece contact) ps)) \<and>
   personaliseMessage ''Hi {{firstName}} from {{company}}''
      (contact\<lparr>c_name := ''Dana Lee'', c_tags := [''acme-company'', ''vip'']\<rparr>)
     = ''Hi Dana from acme-company''"
proof
  show "list_all (okPiece contact) ps \<longrightarrow>
      personaliseMessage (templateText ps) contact = concat (map (renderPiece contact) ps)"
    using personaliseMessage_pieces by blast
  show "personaliseMessage ''Hi {{firstName}} from {{company}}''
      (contact\<lparr>c_name := ''Dana Lee'', c_tags := [''acme-company'', ''vip'']\<rparr>)
     = ''Hi Dana from acme-company''"
    by (simp add: personaliseMessage_def firstNameOf_def companyOf_def js_eval)
qed

lemma lee_values:
  "tokenValue FirstName lee = ''Dana''" "tokenValue Company lee = ''Acme-COMPANY''"
  "tokenValue Notes lee = ''$20 fee {x}''" "tokenValue TagToken lee = ''vip''"
  "tokenValue Phone lee = ''+14155550138''"
  by (simp_all add: lee_def includesStr_sublist [symmetric] js_eval)

lemma greeting_facts:
  "list_all (safePiece lee) greeting"
  "templateText greeting
     = ''Hi {{ FIRSTname}} of {{company}} ({{meetingTime}}): {{Notes }} #{{tag}}, call {{phone  }}''"
  "concat (map (renderPiece lee) greeting)
     = ''Hi Dana of Acme-COMPANY ({{meetingTime}}): $20 fee {x} #vip, call +14155550138''"
  by (simp_all add: greeting_def templateText_def lee_values tokenNames_def tokenFails_def
      canonicalize_def char_of_def bit_Suc_0_iff isWhiteSpace_def del: tokenValue.simps)

theorem personaliseMessage_no_placeholder_witness:
  "\<not> hasPlaceholder (personaliseMessage
     ''Hi {{ FIRSTname}} of {{company}} ({{meetingTime}}): {{Notes }} #{{tag}}, call {{phone  }}'' lee)"
  using personaliseMessage_no_placeholder [OF greeting_facts(1)]
  by (simp only: greeting_facts(2) simp_thms)

text \<open>
  C6 as stated fails in three ways: a value that holds a placeholder of an earlier
  replacement (Kim's notes are \<open>{{fullName}}\<close>); a template whose text closes around a
  placeholder (Dana has no notes, and \<open>{{{{notes}}fullName}}\<close> becomes \<open>{{fullName}}\<close>); a
  value that is a replacement pattern (the name \<open>$&\<close> puts the matched placeholder back).
\<close>

theorem personaliseMessage_no_placeholder_counterexample:
  "hasPlaceholder (personaliseMessage ''{{notes}}'' kim) \<and>
   hasPlaceholder (personaliseMessage ''{{{{notes}}fullName}}'' dana) \<and>
   hasPlaceholder (personaliseMessage ''{{fullName}}'' dollar)"
  by (simp add: hasPlaceholder_def tokenNames_def personaliseMessage_def notesOf_def
      firstNameOf_def companyOf_def firstTagOf_def kim_def dana_def dollar_def js_eval)

theorem personaliseMessage_substitutes_witness:
  "personaliseMessage
     ''Hi {{ FIRSTname}} of {{company}} ({{meetingTime}}): {{Notes }} #{{tag}}, call {{phone  }}'' lee
   = ''Hi Dana of Acme-COMPANY ({{meetingTime}}): $20 fee {x} #vip, call +14155550138''"
proof -
  have "list_all (okPiece lee) greeting"
    using greeting_facts(1) by (auto simp: list_all_iff intro: safePiece_ok)
  with personaliseMessage_substitutes [of lee greeting] show ?thesis
    by (simp only: greeting_facts(2,3) simp_thms)
qed

text \<open>
  C8 as stated fails in four ways: a name whose parts are separated by a tab, which
  \<open>split(" ")\<close> does not split; a name that holds a placeholder of a later replacement; a
  template whose text closes around a placeholder and so forms a later one; a name that
  holds a replacement pattern.
\<close>

theorem personaliseMessage_substitutes_counterexample:
  "personaliseMessage ''{{firstName}}'' tabbed \<noteq> specFirstName (c_name tabbed) \<and>
   personaliseMessage ''{{fullName}}'' nested \<noteq> c_name nested \<and>
   personaliseMessage (templateText unclosed) blank \<noteq> concat (map (renderPiece blank) unclosed) \<and>
   personaliseMessage ''{{fullName}}'' (dana\<lparr>c_name := ''A$$B''\<rparr>) \<noteq> ''A$$B''"
  by (simp add: personaliseMessage_def specFirstName_def tabbed_def nested_def blank_def
      unclosed_def templateText_def dana_def firstNameOf_def companyOf_def notesOf_def
      firstTagOf_def js_eval)

end
